theory Spec2Isabelle
  imports Main "HOL-Library.Multiset" "HOL-Library.Extended_Nat"
begin

section \<open>Data model (types.ts)\<close>

text \<open>
  A \<open>Phrase\<close> is one flashcard. The three counters are JavaScript numbers, that is
  IEEE 754 doubles, that every constructor of the repository fills with a non-negative
  integer (the literal \<open>0\<close>, a parsed progress that passed \<open>progress > 0\<close>,
  \<open>Math.abs\<close> of a negative progress, or a previous counter plus one). They are the
  natural numbers that doubles represent; a sum of two of them is the sum of the doubles,
  rounded where the source adds (\<open>js_add1\<close> below). A deck restored from a backup file is
  taken to have the same shape, and the value \<open>Infinity\<close>, which \<open>parseInt\<close> returns
  for a numeral beyond the range of doubles, is outside the model. The optional fields
  \<open>lastReviewedAt\<close> and \<open>note\<close> are options. The field \<open>id\<close> is called \<open>pid\<close>
  because \<open>id\<close> is the identity function of HOL, and \<open>note\<close> is called
  \<open>note_text\<close> because \<open>note\<close> is a keyword.
\<close>

record phrase =
  pid :: string
  chinese :: string
  english :: string
  consecutiveCorrect :: nat
  consecutiveWrong :: nat
  totalReviews :: nat
  lastReviewedAt :: "nat option"
  note_text :: "string option"

text \<open>
  A \<open>Deck\<close> owns the cards and the study queue of card ids. Its \<open>stats\<close> and
  \<open>sessionHistory\<close> are carried along untouched by every object spread \<open>{...deck, ...}\<close>
  of the session code; a record update leaves all other fields as they are in the same way.
\<close>

record deck =
  deck_id :: string
  name :: string
  phrases :: "phrase list"
  queue :: "string list"

datatype CardState = HIDDEN | VERIFYING | MISSED | REVIEWED

datatype error = TypeError

section \<open>Numbers of the host language\<close>

text \<open>
  \<open>x + 1\<close> for a double \<open>x\<close> that holds a non-negative integer: the sum is rounded to
  the nearest double, a tie to the one with the even significand. Below \<open>2 ^ 53\<close> every
  integer is a double and the sum is exact. From \<open>2 ^ 53\<close> up to \<open>2 ^ 54\<close> the doubles
  are the even integers, \<open>x + 1\<close> lies half-way between \<open>x\<close> and \<open>x + 2\<close>, and the
  one whose significand \<open>x div 2\<close> is even is taken. From \<open>2 ^ 54\<close> on, neighbouring
  doubles are 4 or more apart and \<open>x + 1\<close> rounds back to \<open>x\<close>.
\<close>

definition js_add1 :: "nat \<Rightarrow> nat" where
  "js_add1 x =
     (if x < 2 ^ 53 then x + 1
      else if x < 2 ^ 54 then (if even (x div 2) then x else x + 2)
      else x)"

text \<open>
  \<open>Math.pow(2, n)\<close> for a non-negative integer \<open>n\<close>: the power of two, which is a
  double up to the exponent 1023, and \<open>Infinity\<close> beyond.
\<close>

definition js_pow2 :: "nat \<Rightarrow> enat" where
  "js_pow2 n = (if n \<le> 1023 then enat (2 ^ n) else \<infinity>)"

section \<open>Array primitives of the host language\<close>

text \<open>\<open>xs.splice(i, 0, x)\<close> for an index \<open>0 \<le> i\<close>: insert at \<open>min i (length xs)\<close>.\<close>

definition splice_insert :: "nat \<Rightarrow> 'a \<Rightarrow> 'a list \<Rightarrow> 'a list" where
  "splice_insert i x xs = take i xs @ x # drop i xs"

text \<open>\<open>xs.shift()\<close> drops the first element; on the empty array it does nothing.\<close>

definition shift :: "'a list \<Rightarrow> 'a list" where
  "shift xs = (case xs of [] \<Rightarrow> [] | _ # rest \<Rightarrow> rest)"

section \<open>Study session: the scheduler (StudySession.calculateResult)\<close>

record calc_result =
  updatedPhrases :: "phrase list"
  nextQueue :: "string list"
  insertOffset :: nat

text \<open>Step 2, the callback of \<open>deck.phrases.map\<close>: the answered card gets new counters.\<close>

definition study_update_phrases :: "string \<Rightarrow> bool \<Rightarrow> nat \<Rightarrow> phrase list \<Rightarrow> phrase list" where
  "study_update_phrases currentPhraseId isCorrect now ps =
     map (\<lambda>p. if pid p = currentPhraseId
               then p\<lparr> totalReviews := js_add1 (totalReviews p),
                       consecutiveCorrect :=
                         (if isCorrect then js_add1 (consecutiveCorrect p) else 0),
                       consecutiveWrong :=
                         (if isCorrect then 0 else js_add1 (consecutiveWrong p)),
                       lastReviewedAt := Some now \<rparr>
               else p) ps"

text \<open>
  Step 3, the requested re-insertion offset, computed from the updated card; it is a
  JavaScript number and may be \<open>Infinity\<close>.
\<close>

definition requested_offset :: "bool \<Rightarrow> phrase \<Rightarrow> enat" where
  "requested_offset isCorrect updatedPhrase =
     (if \<not> isCorrect
      then (if consecutiveWrong updatedPhrase > 0 \<and> consecutiveWrong updatedPhrase mod 3 = 0
            then enat 10 else enat 2)
      else js_pow2 (js_add1 (consecutiveCorrect updatedPhrase)))"

text \<open>
  The insertion itself. In the first branch the source pushes the id and then reads
  \<open>nextQueue.length\<close>, that is the length after the push. The test
  \<open>insertOffset > nextQueue.length\<close> is true of \<open>Infinity\<close>.
\<close>

definition reinsert :: "enat \<Rightarrow> string \<Rightarrow> string list \<Rightarrow> string list \<times> nat" where
  "reinsert requested currentPhraseId nq =
     (case requested of
        enat k \<Rightarrow>
          if k > length nq
          then (let pushed = nq @ [currentPhraseId] in (pushed, length pushed))
          else (splice_insert k currentPhraseId nq, k)
      | \<infinity> \<Rightarrow> (let pushed = nq @ [currentPhraseId] in (pushed, length pushed)))"

text \<open>
  \<open>calculateResult\<close> closes over \<open>deck.phrases\<close>, \<open>currentPhraseId\<close> and the working
  \<open>queue\<close>; \<open>now\<close> is the value of \<open>Date.now()\<close>. It returns \<open>null\<close> (\<open>Inr None\<close>)
  when \<open>currentPhraseId\<close> is falsy, which is \<open>null\<close> or the empty string (the other
  half of the guard, \<open>!deck.phrases\<close>, is false for every \<open>Deck\<close>). The non-null
  assertion on \<open>find\<close> does nothing at run time: when no card has the id, reading a
  counter of \<open>undefined\<close> throws a TypeError.
\<close>

definition calculateResult ::
  "phrase list \<Rightarrow> string option \<Rightarrow> string list \<Rightarrow> nat \<Rightarrow> bool \<Rightarrow> error + calc_result option" where
  "calculateResult ps currentPhraseId q now isCorrect =
     (case currentPhraseId of
        None \<Rightarrow> Inr None
      | Some cid \<Rightarrow>
          if cid = [] then Inr None
          else
            let nq = shift q;
                ups = study_update_phrases cid isCorrect now ps
            in (case find (\<lambda>p. pid p = cid) ups of
                  None \<Rightarrow> Inl TypeError
                | Some updatedPhrase \<Rightarrow>
                    let k = requested_offset isCorrect updatedPhrase;
                        r = reinsert k cid nq
                    in Inr (Some \<lparr> updatedPhrases = ups, nextQueue = fst r,
                                    insertOffset = snd r \<rparr>)))"

section \<open>Study session: state and handlers (StudySession)\<close>

record feedback_info =
  insertIndex :: nat
  fb_isCorrect :: bool

record session_stats =
  correct :: nat
  wrong :: nat

text \<open>
  The component's state: the \<open>deck\<close> prop as the parent last stored it through
  \<open>onUpdateDeck\<close>, the working copy of the queue (the state variable \<open>queue\<close>, here
  \<open>sessionQueue\<close>), and the other state variables. \<open>reviewLog\<close> records the calls of
  the callback \<open>onReview\<close>, which updates statistics only and never a card.
\<close>

record study_session =
  deck :: deck
  sessionQueue :: "string list"
  currentPhraseId :: "string option"
  cardState :: CardState
  sessionStats :: session_stats
  feedback :: "feedback_info option"
  reviewLog :: "(string \<times> bool) list"

text \<open>The initial state, as the \<open>useState\<close> initialisers compute it from the prop.\<close>

definition study_init :: "deck \<Rightarrow> study_session" where
  "study_init d =
     \<lparr> deck = d,
       sessionQueue = queue d,
       currentPhraseId = (if length (queue d) > 0 then Some (queue d ! 0) else None),
       cardState = HIDDEN,
       sessionStats = \<lparr> correct = 0, wrong = 0 \<rparr>,
       feedback = None,
       reviewLog = [] \<rparr>"

text \<open>
  \<open>onReview(currentPhraseId, isCorrect)\<close> is called by \<open>calculateResult\<close> as soon as
  it has passed its guard, so a call is logged exactly when the result is not \<open>null\<close>.
\<close>

definition onReview_call :: "string option \<Rightarrow> bool \<Rightarrow> (string \<times> bool) list" where
  "onReview_call current isCorrect =
     (case current of None \<Rightarrow> [] | Some cid \<Rightarrow> [(cid, isCorrect)])"

definition handleDontKnow :: "nat \<Rightarrow> study_session \<Rightarrow> error + study_session" where
  "handleDontKnow now s =
     (case calculateResult (phrases (deck s)) (currentPhraseId s) (sessionQueue s) now False of
        Inl e \<Rightarrow> Inl e
      | Inr None \<Rightarrow> Inr s
      | Inr (Some result) \<Rightarrow>
          Inr (s\<lparr> deck := (deck s)\<lparr> phrases := updatedPhrases result,
                                    queue := nextQueue result \<rparr>,
                  sessionQueue := nextQueue result,
                  sessionStats :=
                    (sessionStats s)\<lparr> wrong := js_add1 (wrong (sessionStats s)) \<rparr>,
                  feedback := Some \<lparr> insertIndex = insertOffset result, fb_isCorrect = False \<rparr>,
                  cardState := MISSED,
                  reviewLog := reviewLog s @ onReview_call (currentPhraseId s) False \<rparr>))"

definition handleKnow :: "study_session \<Rightarrow> study_session" where
  "handleKnow s = s\<lparr> cardState := VERIFYING \<rparr>"

definition handleVerdict :: "nat \<Rightarrow> bool \<Rightarrow> study_session \<Rightarrow> error + study_session" where
  "handleVerdict now isCorrect s =
     (case calculateResult (phrases (deck s)) (currentPhraseId s) (sessionQueue s) now isCorrect of
        Inl e \<Rightarrow> Inl e
      | Inr None \<Rightarrow> Inr s
      | Inr (Some result) \<Rightarrow>
          Inr (s\<lparr> deck := (deck s)\<lparr> phrases := updatedPhrases result,
                                    queue := nextQueue result \<rparr>,
                  sessionQueue := nextQueue result,
                  sessionStats :=
                    \<lparr> correct = (if isCorrect then js_add1 (correct (sessionStats s))
                                 else correct (sessionStats s)),
                      wrong = (if isCorrect then wrong (sessionStats s)
                               else js_add1 (wrong (sessionStats s))) \<rparr>,
                  feedback := Some \<lparr> insertIndex = insertOffset result, fb_isCorrect = isCorrect \<rparr>,
                  cardState := REVIEWED,
                  reviewLog := reviewLog s @ onReview_call (currentPhraseId s) isCorrect \<rparr>))"

definition handleNext :: "study_session \<Rightarrow> study_session" where
  "handleNext s =
     (if length (sessionQueue s) > 0
      then s\<lparr> currentPhraseId := Some (sessionQueue s ! 0), cardState := HIDDEN, feedback := None \<rparr>
      else s\<lparr> currentPhraseId := None \<rparr>)"

text \<open>
  The fallback effect, which runs after a render in which \<open>queue\<close> or
  \<open>currentPhraseId\<close> has changed: a falsy current id is replaced by the head of a
  non-empty queue.
\<close>

definition fallbackEffect :: "study_session \<Rightarrow> study_session" where
  "fallbackEffect s =
     (if (currentPhraseId s = None \<or> currentPhraseId s = Some []) \<and> length (sessionQueue s) > 0
      then s\<lparr> currentPhraseId := Some (sessionQueue s ! 0), cardState := HIDDEN \<rparr>
      else s)"

text \<open>
  The events of the answer path; an answer carries the clock value it reads, and the
  fallback effect may run between any two of them.
\<close>

datatype study_event = Know | DontKnow nat | Verdict nat bool | Next | Fallback

fun study_step :: "study_event \<Rightarrow> study_session \<Rightarrow> error + study_session" where
  "study_step Know s = Inr (handleKnow s)"
| "study_step (DontKnow now) s = handleDontKnow now s"
| "study_step (Verdict now isCorrect) s = handleVerdict now isCorrect s"
| "study_step Next s = Inr (handleNext s)"
| "study_step Fallback s = Inr (fallbackEffect s)"

text \<open>A run stops at the first uncaught exception.\<close>

fun study_run :: "study_event list \<Rightarrow> study_session \<Rightarrow> error + study_session" where
  "study_run [] s = Inr s"
| "study_run (ev # evs) s =
     (case study_step ev s of Inl e \<Rightarrow> Inl e | Inr s' \<Rightarrow> study_run evs s')"

section \<open>Exam session (ExamSession)\<close>

datatype ExamStep = QUESTION | REVEAL | RESULT

text \<open>
  \<open>xs.slice(0, e)\<close> for an integer \<open>e\<close>: a negative end counts from the end of the
  array, and the end is clamped to the bounds.
\<close>

definition slice0 :: "'a list \<Rightarrow> int \<Rightarrow> 'a list" where
  "slice0 xs e =
     (let len = int (length xs);
          final = (if e < 0 then max (len + e) 0 else min e len)
      in take (nat final) xs)"

record exam_session =
  exam_deck :: deck
  questionCount :: int
  questions :: "phrase list"
  currentIndex :: nat
  step :: ExamStep
  score :: nat
  isFinished :: bool
  results :: "(phrase \<times> bool) list"
  isInitialized :: bool
  exam_reviewLog :: "(string \<times> bool) list"

definition exam_mount :: "deck \<Rightarrow> int \<Rightarrow> exam_session" where
  "exam_mount d n =
     \<lparr> exam_deck = d, questionCount = n, questions = [], currentIndex = 0, step = QUESTION,
       score = 0, isFinished = False, results = [], isInitialized = False,
       exam_reviewLog = [] \<rparr>"

text \<open>
  The initialising effect. \<open>shuffled\<close> is the outcome of
  \<open>[...deck.phrases].sort(() => 0.5 - Math.random())\<close>: which order comes out depends on
  the random numbers, so the order is a parameter; whatever the comparator answers, sorting
  an array only rearranges it, so \<open>shuffled\<close> is a permutation of \<open>deck.phrases\<close>.
\<close>

definition exam_init_effect :: "phrase list \<Rightarrow> exam_session \<Rightarrow> exam_session" where
  "exam_init_effect shuffled e =
     (if isInitialized e then e
      else
        let selected = slice0 shuffled
              (min (questionCount e) (int (length (phrases (exam_deck e)))))
        in e\<lparr> questions := selected, isInitialized := True \<rparr>)"

definition handleReveal :: "exam_session \<Rightarrow> exam_session" where
  "handleReveal e = e\<lparr> step := REVEAL \<rparr>"

text \<open>
  \<open>questions[currentIndex]\<close> is \<open>undefined\<close> out of range, and reading its \<open>id\<close> then
  throws a TypeError.
\<close>

definition exam_handleVerdict :: "nat \<Rightarrow> bool \<Rightarrow> exam_session \<Rightarrow> error + exam_session" where
  "exam_handleVerdict now isCorrect e =
     (if currentIndex e \<ge> length (questions e) then Inl TypeError
      else
        let currentPhrase = questions e ! currentIndex e;
            updatedPhrases =
              map (\<lambda>p. if pid p = pid currentPhrase
                        then p\<lparr> totalReviews := js_add1 (totalReviews p),
                                consecutiveCorrect :=
                                  (if isCorrect then js_add1 (consecutiveCorrect p) else 0),
                                consecutiveWrong :=
                                  (if isCorrect then 0 else js_add1 (consecutiveWrong p)),
                                lastReviewedAt := Some now \<rparr>
                        else p) (phrases (exam_deck e));
            e1 = e\<lparr> exam_reviewLog := exam_reviewLog e @ [(pid currentPhrase, isCorrect)],
                    exam_deck := (exam_deck e)\<lparr> phrases := updatedPhrases \<rparr>,
                    results := results e @ [(currentPhrase, isCorrect)],
                    score := (if isCorrect then js_add1 (score e) else score e) \<rparr>
        in if int (currentIndex e) < int (length (questions e)) - 1
           then Inr (e1\<lparr> currentIndex := js_add1 (currentIndex e), step := QUESTION \<rparr>)
           else Inr (e1\<lparr> isFinished := True, step := RESULT \<rparr>))"

text \<open>
  The events of an exam: the initialising effect runs after the first render and again
  whenever \<open>deck.phrases\<close> changes, each time with a fresh shuffle.
\<close>

datatype exam_event = InitEffect "phrase list" | Reveal | ExamVerdict nat bool

fun exam_step :: "exam_event \<Rightarrow> exam_session \<Rightarrow> error + exam_session" where
  "exam_step (InitEffect shuffled) e = Inr (exam_init_effect shuffled e)"
| "exam_step Reveal e = Inr (handleReveal e)"
| "exam_step (ExamVerdict now isCorrect) e = exam_handleVerdict now isCorrect e"

fun exam_run :: "exam_event list \<Rightarrow> exam_session \<Rightarrow> error + exam_session" where
  "exam_run [] e = Inr e"
| "exam_run (ev # evs) e =
     (case exam_step ev e of Inl err \<Rightarrow> Inl err | Inr e' \<Rightarrow> exam_run evs e')"

section \<open>Bulk text format (Importer.handleManualImport, DeckEditor.confirmBatchSave)\<close>

text \<open>\<open>s.split(c)\<close> for a separator of one character.\<close>

fun split_on :: "char \<Rightarrow> string \<Rightarrow> string list" where
  "split_on c [] = [[]]"
| "split_on c (x # xs) =
     (if x = c then [] # split_on c xs
      else (case split_on c xs of [] \<Rightarrow> [[x]] | w # ws \<Rightarrow> (x # w) # ws))"

text \<open>
  One parsed line. The Importer names the first two fields \<open>english\<close> and \<open>chinese\<close>,
  the DeckEditor \<open>eng\<close> and \<open>chi\<close>; the parsing code of the two is otherwise the same.
\<close>

record parsed_item =
  eng :: string
  chi :: string
  item_note :: string
  progress :: int
  position :: "int option"
  originalIndex :: nat

text \<open>
  The string functions of the host language are parameters: \<open>trim\<close> is
  \<open>String.prototype.trim\<close>, \<open>toLowerCase\<close> is \<open>String.prototype.toLowerCase\<close>, and
  \<open>parseInt\<close> is the global \<open>parseInt\<close>, with \<open>None\<close> for \<open>NaN\<close>.
  \<open>parts[2] || ''\<close> is the empty string when the third field is missing or empty.
\<close>

definition parse_line ::
  "(string \<Rightarrow> string) \<Rightarrow> (string \<Rightarrow> int option) \<Rightarrow> nat \<Rightarrow> string \<Rightarrow> parsed_item option" where
  "parse_line trim parseInt index line =
     (let parts = map trim (split_on CHR ''|'' line)
      in if length parts < 2 then None
         else Some \<lparr> eng = parts ! 0,
                      chi = parts ! 1,
                      item_note = (if length parts > 2 then parts ! 2 else []),
                      progress =
                        (if length parts \<ge> 4 \<and> parts ! 3 \<noteq> []
                         then (case parseInt (parts ! 3) of None \<Rightarrow> 0 | Some val \<Rightarrow> val)
                         else 0),
                      position =
                        (if length parts \<ge> 5 \<and> parts ! 4 \<noteq> []
                         then parseInt (parts ! 4)
                         else None),
                      originalIndex = index \<rparr>)"

text \<open>
  \<open>text.split('\n').filter(l => l.trim().length > 0)\<close>, then the \<open>map\<close> with the line's
  index and the \<open>filter\<close> that drops the lines that did not parse.
\<close>

definition parse_items ::
  "(string \<Rightarrow> string) \<Rightarrow> (string \<Rightarrow> int option) \<Rightarrow> string \<Rightarrow> parsed_item list" where
  "parse_items trim parseInt txt =
     (let lines = filter (\<lambda>l. length (trim l) > 0) (split_on (CHR 0x0A) txt)
      in List.map_filter (\<lambda>(index, line). parse_line trim parseInt index line)
           (List.enumerate 0 lines))"

text \<open>
  \<open>Array.prototype.sort\<close> with a comparator: a stable sort, here by insertion. An
  element goes before the first element that the comparator does not put before it.
\<close>

fun insert_by :: "('a \<Rightarrow> 'a \<Rightarrow> int) \<Rightarrow> 'a \<Rightarrow> 'a list \<Rightarrow> 'a list" where
  "insert_by cmp x [] = [x]"
| "insert_by cmp x (y # ys) = (if cmp x y \<le> 0 then x # y # ys else y # insert_by cmp x ys)"

definition js_sort :: "('a \<Rightarrow> 'a \<Rightarrow> int) \<Rightarrow> 'a list \<Rightarrow> 'a list" where
  "js_sort cmp xs = foldr (insert_by cmp) xs []"

text \<open>The comparator of the Importer.\<close>

definition importer_compare :: "parsed_item \<Rightarrow> parsed_item \<Rightarrow> int" where
  "importer_compare a b =
     (let posA = position a; posB = position b
      in if posA \<noteq> None \<and> posB = None then -1
         else if posA = None \<and> posB \<noteq> None then 1
         else (case (posA, posB) of
                 (Some pa, Some pb) \<Rightarrow>
                   if pa \<noteq> pb then pa - pb
                   else int (originalIndex a) - int (originalIndex b)
               | _ \<Rightarrow> int (originalIndex a) - int (originalIndex b)))"

text \<open>
  The comparator of the DeckEditor. \<open>isOld\<close> is \<open>existingPhrasesMap.has\<close> of the item's
  key \<open>eng.toLowerCase().trim()\<close>.
\<close>

definition editor_compare :: "(parsed_item \<Rightarrow> bool) \<Rightarrow> parsed_item \<Rightarrow> parsed_item \<Rightarrow> int" where
  "editor_compare isOld a b =
     (let posA = position a; posB = position b
      in if posA \<noteq> None \<and> posB = None then -1
         else if posA = None \<and> posB \<noteq> None then 1
         else (case (posA, posB) of
                 (Some pa, Some pb) \<Rightarrow>
                   if pa \<noteq> pb then pa - pb
                   else if \<not> isOld a \<and> isOld b then -1
                   else if isOld a \<and> \<not> isOld b then 1
                   else int (originalIndex a) - int (originalIndex b)
               | _ \<Rightarrow> int (originalIndex a) - int (originalIndex b)))"

text \<open>The seeded counters: \<open>correct\<close> and \<open>wrong\<close> of both import paths.\<close>

definition seed_correct :: "parsed_item \<Rightarrow> nat" where
  "seed_correct item = (if progress item > 0 then nat (progress item) else 0)"

definition seed_wrong :: "parsed_item \<Rightarrow> nat" where
  "seed_wrong item = (if progress item < 0 then nat \<bar>progress item\<bar> else 0)"

subsection \<open>Importer.handleManualImport and App.handleCreateDeck\<close>

datatype import_error = NoDeckName | NothingParsed

text \<open>\<open>uuid i\<close> is the result of the \<open>i\<close>-th call of \<open>uuidv4()\<close>.\<close>

definition importer_phrase :: "string \<Rightarrow> parsed_item \<Rightarrow> phrase" where
  "importer_phrase newId item =
     (let correct = seed_correct item; wrong = seed_wrong item
      in \<lparr> pid = newId, chinese = chi item, english = eng item,
           consecutiveCorrect = correct, consecutiveWrong = wrong,
           totalReviews = correct + wrong,
           lastReviewedAt = None, note_text = Some (item_note item) \<rparr>)"

definition importer_sorted_items ::
  "(string \<Rightarrow> string) \<Rightarrow> (string \<Rightarrow> int option) \<Rightarrow> string \<Rightarrow> parsed_item list" where
  "importer_sorted_items trim parseInt manualText =
     js_sort importer_compare (parse_items trim parseInt manualText)"

definition handleManualImport ::
  "(string \<Rightarrow> string) \<Rightarrow> (string \<Rightarrow> int option) \<Rightarrow> (nat \<Rightarrow> string) \<Rightarrow> string \<Rightarrow> string
     \<Rightarrow> import_error + (string \<times> phrase list)" where
  "handleManualImport trim parseInt uuid deckName manualText =
     (if trim deckName = [] then Inl NoDeckName
      else
        let parsedItems = importer_sorted_items trim parseInt manualText;
            ps = map (\<lambda>(i, item). importer_phrase (uuid i) item) (List.enumerate 0 parsedItems)
        in if length ps = 0 then Inl NothingParsed else Inr (deckName, ps))"

text \<open>\<open>onImport\<close> is \<open>App.handleCreateDeck\<close>: the queue of the new deck is the list of ids.\<close>

definition handleCreateDeck :: "string \<Rightarrow> string \<Rightarrow> phrase list \<Rightarrow> deck" where
  "handleCreateDeck newDeckId nm ps =
     \<lparr> deck_id = newDeckId, name = nm, phrases = ps, queue = map pid ps \<rparr>"

subsection \<open>DeckEditor.confirmBatchSave\<close>

text \<open>
  \<open>existingPhrasesMap\<close>: filled by \<open>forEach\<close> with \<open>set\<close>, so the last phrase with a key
  is the one the map holds.
\<close>

definition existingPhrasesMap ::
  "(string \<Rightarrow> string) \<Rightarrow> (string \<Rightarrow> string) \<Rightarrow> phrase list \<Rightarrow> string \<Rightarrow> phrase option" where
  "existingPhrasesMap trim toLowerCase ps =
     map_of (rev (map (\<lambda>p. (trim (toLowerCase (english p)), p)) ps))"

text \<open>The loop over the sorted items; \<open>n\<close> counts the calls of \<open>uuidv4()\<close> made so far.\<close>

fun batch_build ::
  "(string \<Rightarrow> phrase option) \<Rightarrow> (string \<Rightarrow> string) \<Rightarrow> (nat \<Rightarrow> string) \<Rightarrow> nat \<Rightarrow> parsed_item list
     \<Rightarrow> phrase list \<times> string list" where
  "batch_build existing key uuid n [] = ([], [])"
| "batch_build existing key uuid n (item # items) =
     (let correct = seed_correct item; wrong = seed_wrong item
      in case existing (key (eng item)) of
           Some ex \<Rightarrow>
             let total = (if correct + wrong > totalReviews ex then correct + wrong
                          else totalReviews ex);
                 p = ex\<lparr> english := eng item, chinese := chi item,
                         note_text := Some (item_note item),
                         consecutiveCorrect := correct, consecutiveWrong := wrong,
                         totalReviews := total \<rparr>;
                 rest = batch_build existing key uuid n items
             in (p # fst rest, pid p # snd rest)
         | None \<Rightarrow>
             let newId = uuid n;
                 p = \<lparr> pid = newId, chinese = chi item, english = eng item,
                       consecutiveCorrect = correct, consecutiveWrong = wrong,
                       totalReviews = correct + wrong,
                       lastReviewedAt = None, note_text = Some (item_note item) \<rparr>;
                 rest = batch_build existing key uuid (n + 1) items
             in (p # fst rest, newId # snd rest))"

definition editor_sorted_items ::
  "(string \<Rightarrow> string) \<Rightarrow> (string \<Rightarrow> string) \<Rightarrow> (string \<Rightarrow> int option) \<Rightarrow> phrase list \<Rightarrow> string
     \<Rightarrow> parsed_item list" where
  "editor_sorted_items trim toLowerCase parseInt ps batchText =
     (let existing = existingPhrasesMap trim toLowerCase ps
      in js_sort (editor_compare (\<lambda>item. existing (trim (toLowerCase (eng item))) \<noteq> None))
           (parse_items trim parseInt batchText))"

definition confirmBatchSave ::
  "(string \<Rightarrow> string) \<Rightarrow> (string \<Rightarrow> string) \<Rightarrow> (string \<Rightarrow> int option) \<Rightarrow> (nat \<Rightarrow> string)
     \<Rightarrow> deck \<Rightarrow> string \<Rightarrow> phrase list \<Rightarrow> string \<Rightarrow> deck" where
  "confirmBatchSave trim toLowerCase parseInt uuid d deckName ps batchText =
     (let existing = existingPhrasesMap trim toLowerCase ps;
          parsedItems = editor_sorted_items trim toLowerCase parseInt ps batchText;
          built = batch_build existing (\<lambda>s. trim (toLowerCase s)) uuid 0 parsedItems
      in d\<lparr> name := deckName, phrases := fst built, queue := snd built \<rparr>)"

subsection \<open>The order the format promises\<close>

text \<open>
  The order as the format's description words it: a line with an explicit position comes
  before a line without one; explicit positions ascend; equal explicit positions, and two
  lines without a position, keep the order of the lines.
\<close>

definition line_order :: "parsed_item \<Rightarrow> parsed_item \<Rightarrow> bool" where
  "line_order a b =
     (case (position a, position b) of
        (Some pa, Some pb) \<Rightarrow> pa < pb \<or> (pa = pb \<and> originalIndex a < originalIndex b)
      | (Some pa, None) \<Rightarrow> True
      | (None, Some pb) \<Rightarrow> False
      | (None, None) \<Rightarrow> originalIndex a < originalIndex b)"

text \<open>
  The order of the DeckEditor: among equal explicit positions a new phrase comes before
  one the deck already has, and the order of the lines decides only after that.
\<close>

definition editor_line_order :: "(parsed_item \<Rightarrow> bool) \<Rightarrow> parsed_item \<Rightarrow> parsed_item \<Rightarrow> bool" where
  "editor_line_order isOld a b =
     (case (position a, position b) of
        (Some pa, Some pb) \<Rightarrow>
          pa < pb \<or>
          (pa = pb \<and> ((\<not> isOld a \<and> isOld b) \<or>
                       (isOld a = isOld b \<and> originalIndex a < originalIndex b)))
      | (Some pa, None) \<Rightarrow> True
      | (None, Some pb) \<Rightarrow> False
      | (None, None) \<Rightarrow> originalIndex a < originalIndex b)"

section \<open>Example data\<close>

text \<open>A card with the given id and counters and empty texts, for the worked scenarios.\<close>

definition card :: "string \<Rightarrow> nat \<Rightarrow> nat \<Rightarrow> nat \<Rightarrow> phrase" where
  "card i cc cw tr =
     \<lparr> pid = i, chinese = [], english = [], consecutiveCorrect = cc, consecutiveWrong = cw,
       totalReviews = tr, lastReviewedAt = None, note_text = None \<rparr>"

text \<open>A deck of the given cards, queued in their order.\<close>

definition example_deck :: "phrase list \<Rightarrow> deck" where
  "example_deck ps = \<lparr> deck_id = ''deck'', name = ''deck'', phrases = ps, queue = map pid ps \<rparr>"

section \<open>Counting answers\<close>

text \<open>
  The number of answers given to a card: the number of \<open>onReview\<close> calls with its id.
\<close>

definition answers_to :: "string \<Rightarrow> (string \<times> bool) list \<Rightarrow> nat" where
  "answers_to cid calls = length (filter (\<lambda>entry. fst entry = cid) calls)"

section \<open>Example host functions and texts\<close>

text \<open>
  For the worked examples: \<open>parseInt\<close> on strings that start with an optional sign and
  decimal digits (the global \<open>parseInt\<close> also skips leading white space and reads a
  hexadecimal prefix, which the examples do not use), an id generator, and two texts in the
  bulk format. The examples' texts have no white space and no capital letters, so \<open>trim\<close>
  and \<open>toLowerCase\<close> return them unchanged and the identity stands for both.
\<close>

definition digit_value :: "char \<Rightarrow> nat option" where
  "digit_value c =
     (if of_char c \<ge> (48::nat) \<and> of_char c \<le> (57::nat) then Some (of_char c - 48) else None)"

fun digits_prefix :: "string \<Rightarrow> nat list" where
  "digits_prefix [] = []"
| "digits_prefix (c # cs) =
     (case digit_value c of None \<Rightarrow> [] | Some v \<Rightarrow> v # digits_prefix cs)"

definition decimal_parseInt :: "string \<Rightarrow> int option" where
  "decimal_parseInt s =
     (let negative = (s \<noteq> [] \<and> hd s = CHR ''-'');
          body = (if s \<noteq> [] \<and> (hd s = CHR ''-'' \<or> hd s = CHR ''+'') then tl s else s);
          ds = digits_prefix body
      in if ds = [] then None
         else let v = int (foldl (\<lambda>acc v. 10 * acc + v) 0 ds)
              in Some (if negative then - v else v))"

definition example_uuid :: "nat \<Rightarrow> string" where
  "example_uuid i = replicate (Suc i) CHR ''u''"

definition example_text :: string where
  "example_text = ''c|z'' @ [CHR 0x0A] @ ''b|y||-2|1'' @ [CHR 0x0A] @ ''a|x|n|3|0''"

definition tie_text :: string where
  "tie_text = ''a|x||0|0'' @ [CHR 0x0A] @ ''b|y||0|0''"

section \<open>Well-formed study sessions\<close>

text \<open>
  A session is well-formed when every id of the working queue, and the current id if there
  is one, is the id of a card of the deck.
\<close>

definition session_ok :: "study_session \<Rightarrow> bool" where
  "session_ok s =
     (set (sessionQueue s) \<subseteq> set (map pid (phrases (deck s))) \<and>
      set_option (currentPhraseId s) \<subseteq> set (map pid (phrases (deck s))))"

section \<open>Example cards with large counters\<close>

text \<open>
  A parsed line with the given progress, as the bulk format accepts it; the Importer seeds
  the counters of the new card with it. \<open>9007199254740992\<close> is \<open>2 ^ 53\<close>.
\<close>

definition seeded_item :: "int \<Rightarrow> parsed_item" where
  "seeded_item p =
     \<lparr> eng = ''a'', chi = ''x'', item_note = [], progress = p, position = None,
       originalIndex = 0 \<rparr>"

text \<open>A batch text that names the phrase \<open>a\<close> on two lines.\<close>

definition twice_text :: string where
  "twice_text = ''a|x'' @ [CHR 0x0A] @ ''a|y''"

section \<open>Rounded sums\<close>

lemma js_add1_small: "x < 2 ^ 53 \<Longrightarrow> js_add1 x = x + 1"
  by (simp add: js_add1_def)

lemma js_add1_pos: "0 < js_add1 x"
  by (simp add: js_add1_def)

lemma js_add1_ge: "x \<le> js_add1 x"
  by (simp add: js_add1_def)

lemma js_add1_stuck: "js_add1 9007199254740992 = 9007199254740992"
  by (simp add: js_add1_def)

lemma js_add1_funpow: "x + k \<le> 2 ^ 53 \<Longrightarrow> (js_add1 ^^ k) x = x + k"
proof (induction k)
  case 0
  then show ?case by simp
next
  case (Suc k)
  then have "(js_add1 ^^ k) x = x + k" and "x + k < 2 ^ 53" by simp_all
  then show ?case by (simp add: js_add1_small)
qed

section \<open>The scheduler step, unfolded\<close>

lemma find_study_update:
  "find (\<lambda>p. pid p = cid) ps = Some p \<Longrightarrow>
   find (\<lambda>p. pid p = cid) (study_update_phrases cid isCorrect now ps) =
     Some (p\<lparr> totalReviews := js_add1 (totalReviews p),
              consecutiveCorrect := (if isCorrect then js_add1 (consecutiveCorrect p) else 0),
              consecutiveWrong := (if isCorrect then 0 else js_add1 (consecutiveWrong p)),
              lastReviewedAt := Some now \<rparr>)"
  by (induction ps) (auto simp: study_update_phrases_def split: if_splits)

lemma find_pid_member:
  "cid \<in> set (map pid ps) \<Longrightarrow> \<exists>p. find (\<lambda>p. pid p = cid) ps = Some p"
  by (induction ps) auto

lemma reinsert_finite:
  "reinsert (enat k) cid nq =
     (take k nq @ cid # drop k nq, if k \<le> length nq then k else length nq + 1)"
  by (simp add: reinsert_def splice_insert_def Let_def)

lemma reinsert_infinite: "reinsert \<infinity> cid nq = (nq @ [cid], length nq + 1)"
  by (simp add: reinsert_def Let_def)

lemma reinsert_mset: "mset (fst (reinsert k cid nq)) = add_mset cid (mset nq)"
proof (cases k)
  case (enat n)
  have "mset (take n nq) + mset (drop n nq) = mset nq"
    using mset_append [of "take n nq" "drop n nq"] by (simp only: append_take_drop_id)
  then show ?thesis by (simp add: enat reinsert_finite)
next
  case infinity
  then show ?thesis by (simp add: reinsert_infinite)
qed

lemma calculateResult_found:
  assumes "find (\<lambda>p. pid p = cid) ps = Some p" and "cid \<noteq> []"
  shows "calculateResult ps (Some cid) q now isCorrect =
     (let up = p\<lparr> totalReviews := js_add1 (totalReviews p),
              consecutiveCorrect := (if isCorrect then js_add1 (consecutiveCorrect p) else 0),
              consecutiveWrong := (if isCorrect then 0 else js_add1 (consecutiveWrong p)),
              lastReviewedAt := Some now \<rparr>;
          r = reinsert (requested_offset isCorrect up) cid (shift q)
      in Inr (Some \<lparr> updatedPhrases = study_update_phrases cid isCorrect now ps,
                      nextQueue = fst r, insertOffset = snd r \<rparr>))"
  using assms
  by (simp add: calculateResult_def Let_def find_study_update)

lemma requested_offset_correct:
  "consecutiveCorrect up + 1 \<le> 1023 \<Longrightarrow>
     requested_offset True up = enat (2 ^ (consecutiveCorrect up + 1))"
proof -
  assume a: "consecutiveCorrect up + 1 \<le> 1023"
  then have "consecutiveCorrect up < 2 ^ 53" by simp
  then have "js_add1 (consecutiveCorrect up) = consecutiveCorrect up + 1"
    by (rule js_add1_small)
  with a show ?thesis by (simp add: requested_offset_def js_pow2_def)
qed

lemma requested_offset_correct_infinite:
  "1023 < consecutiveCorrect up + 1 \<Longrightarrow> requested_offset True up = \<infinity>"
proof -
  assume a: "1023 < consecutiveCorrect up + 1"
  have "consecutiveCorrect up \<le> js_add1 (consecutiveCorrect up)" by (rule js_add1_ge)
  moreover have "consecutiveCorrect up < 2 ^ 53 \<Longrightarrow>
      js_add1 (consecutiveCorrect up) = consecutiveCorrect up + 1"
    by (rule js_add1_small)
  moreover have "\<not> consecutiveCorrect up < 2 ^ 53 \<Longrightarrow> 1023 < consecutiveCorrect up"
    by simp
  ultimately have "1023 < js_add1 (consecutiveCorrect up)"
    using a by (cases "consecutiveCorrect up < 2 ^ 53") simp_all
  then show ?thesis by (simp add: requested_offset_def js_pow2_def)
qed

lemma requested_offset_wrong:
  "requested_offset False up =
     enat (if consecutiveWrong up > 0 \<and> consecutiveWrong up mod 3 = 0 then 10 else 2)"
  by (simp add: requested_offset_def)

section \<open>Offsets of the study scheduler\<close>

text \<open>
  C1, as amended. A correct answer to the card \<open>p\<close> at the head (any card with a
  non-empty id that the deck holds) whose \<open>consecutiveCorrect\<close> is below \<open>2 ^ 53\<close> makes
  the scheduler return a result in which the card's \<open>consecutiveCorrect\<close> is the prior
  value plus one. The requested offset is \<open>2 ^ (consecutiveCorrect' + 1)\<close> as long as the
  exponent is at most 1023: the id is inserted into the rest of the queue at that offset (at
  the end when the rest is shorter), and the offset is the one reported when it fits. Beyond
  that exponent the requested offset is \<open>Infinity\<close> and the card is appended. In the queue
  \<open>[A,B,C,D,E]\<close>, a correct answer to \<open>A\<close> from \<open>consecutiveCorrect = 0\<close> gives offset
  4 and the queue \<open>[B,C,D,E,A]\<close>.
\<close>

theorem C1_correct_answer_offset:
  "(find (\<lambda>p. pid p = cid) ps = Some p \<and> cid \<noteq> [] \<and> consecutiveCorrect p < 2 ^ 53 \<longrightarrow>
     (\<exists>r up. calculateResult ps (Some cid) q now True = Inr (Some r)
        \<and> find (\<lambda>p. pid p = cid) (updatedPhrases r) = Some up
        \<and> consecutiveCorrect up = consecutiveCorrect p + 1
        \<and> (consecutiveCorrect up + 1 \<le> 1023 \<longrightarrow>
             requested_offset True up = enat (2 ^ (consecutiveCorrect up + 1))
             \<and> nextQueue r = take (2 ^ (consecutiveCorrect up + 1)) (shift q) @ cid #
                              drop (2 ^ (consecutiveCorrect up + 1)) (shift q)
             \<and> (2 ^ (consecutiveCorrect up + 1) \<le> length (shift q) \<longrightarrow>
                  insertOffset r = 2 ^ (consecutiveCorrect up + 1)))
        \<and> (1023 < consecutiveCorrect up + 1 \<longrightarrow>
             requested_offset True up = \<infinity> \<and> nextQueue r = shift q @ [cid])))
   \<and> (\<exists>r. calculateResult
            [card ''A'' 0 0 0, card ''B'' 0 0 0, card ''C'' 0 0 0, card ''D'' 0 0 0,
             card ''E'' 0 0 0]
            (Some ''A'') [''A'', ''B'', ''C'', ''D'', ''E''] now True = Inr (Some r)
        \<and> insertOffset r = 4
        \<and> nextQueue r = [''B'', ''C'', ''D'', ''E'', ''A''])"
proof (intro conjI impI)
  assume h: "find (\<lambda>p. pid p = cid) ps = Some p \<and> cid \<noteq> [] \<and> consecutiveCorrect p < 2 ^ 53"
  define up where "up = p\<lparr> totalReviews := js_add1 (totalReviews p),
              consecutiveCorrect := js_add1 (consecutiveCorrect p),
              consecutiveWrong := 0, lastReviewedAt := Some now \<rparr>"
  define r where "r = \<lparr> updatedPhrases = study_update_phrases cid True now ps,
                      nextQueue = fst (reinsert (requested_offset True up) cid (shift q)),
                      insertOffset = snd (reinsert (requested_offset True up) cid (shift q)) \<rparr>"
  have res: "calculateResult ps (Some cid) q now True = Inr (Some r)"
    using h calculateResult_found [of cid ps p q now True] by (simp add: Let_def r_def up_def)
  have f: "find (\<lambda>p. pid p = cid) (updatedPhrases r) = Some up"
    using h find_study_update [of cid ps p True now] by (simp add: r_def up_def)
  have c: "consecutiveCorrect up = consecutiveCorrect p + 1"
    using h by (simp add: up_def js_add1_small)
  have fin: "consecutiveCorrect up + 1 \<le> 1023 \<longrightarrow>
             requested_offset True up = enat (2 ^ (consecutiveCorrect up + 1))
             \<and> nextQueue r = take (2 ^ (consecutiveCorrect up + 1)) (shift q) @ cid #
                              drop (2 ^ (consecutiveCorrect up + 1)) (shift q)
             \<and> (2 ^ (consecutiveCorrect up + 1) \<le> length (shift q) \<longrightarrow>
                  insertOffset r = 2 ^ (consecutiveCorrect up + 1))"
  proof
    assume "consecutiveCorrect up + 1 \<le> 1023"
    then have k: "requested_offset True up = enat (2 ^ (consecutiveCorrect up + 1))"
      by (rule requested_offset_correct)
    show "requested_offset True up = enat (2 ^ (consecutiveCorrect up + 1))
             \<and> nextQueue r = take (2 ^ (consecutiveCorrect up + 1)) (shift q) @ cid #
                              drop (2 ^ (consecutiveCorrect up + 1)) (shift q)
             \<and> (2 ^ (consecutiveCorrect up + 1) \<le> length (shift q) \<longrightarrow>
                  insertOffset r = 2 ^ (consecutiveCorrect up + 1))"
      by (simp add: r_def k reinsert_finite)
  qed
  have inf: "1023 < consecutiveCorrect up + 1 \<longrightarrow>
             requested_offset True up = \<infinity> \<and> nextQueue r = shift q @ [cid]"
  proof
    assume "1023 < consecutiveCorrect up + 1"
    then have k: "requested_offset True up = \<infinity>"
      by (rule requested_offset_correct_infinite)
    show "requested_offset True up = \<infinity> \<and> nextQueue r = shift q @ [cid]"
      by (simp add: r_def k reinsert_infinite)
  qed
  from res f c fin inf
  show "\<exists>r up. calculateResult ps (Some cid) q now True = Inr (Some r)
        \<and> find (\<lambda>p. pid p = cid) (updatedPhrases r) = Some up
        \<and> consecutiveCorrect up = consecutiveCorrect p + 1
        \<and> (consecutiveCorrect up + 1 \<le> 1023 \<longrightarrow>
             requested_offset True up = enat (2 ^ (consecutiveCorrect up + 1))
             \<and> nextQueue r = take (2 ^ (consecutiveCorrect up + 1)) (shift q) @ cid #
                              drop (2 ^ (consecutiveCorrect up + 1)) (shift q)
             \<and> (2 ^ (consecutiveCorrect up + 1) \<le> length (shift q) \<longrightarrow>
                  insertOffset r = 2 ^ (consecutiveCorrect up + 1)))
        \<and> (1023 < consecutiveCorrect up + 1 \<longrightarrow>
             requested_offset True up = \<infinity> \<and> nextQueue r = shift q @ [cid])"
    by (intro exI [of _ r] exI [of _ up] conjI)
next
  show "\<exists>r. calculateResult
            [card ''A'' 0 0 0, card ''B'' 0 0 0, card ''C'' 0 0 0, card ''D'' 0 0 0,
             card ''E'' 0 0 0]
            (Some ''A'') [''A'', ''B'', ''C'', ''D'', ''E''] now True = Inr (Some r)
        \<and> insertOffset r = 4
        \<and> nextQueue r = [''B'', ''C'', ''D'', ''E'', ''A'']"
    by (simp add: calculateResult_def card_def study_update_phrases_def requested_offset_def
        js_add1_def js_pow2_def reinsert_def splice_insert_def shift_def Let_def)
qed

theorem C1_correct_answer_offset_witness:
  "find (\<lambda>p. pid p = ''A'') [card ''A'' 2 0 2, card ''B'' 0 0 0] = Some (card ''A'' 2 0 2)
   \<and> ''A'' \<noteq> []
   \<and> consecutiveCorrect (card ''A'' 2 0 2) < 2 ^ 53
   \<and> (\<exists>r up. calculateResult [card ''A'' 2 0 2, card ''B'' 0 0 0] (Some ''A'')
             [''A'', ''B''] 5 True = Inr (Some r)
          \<and> find (\<lambda>p. pid p = ''A'') (updatedPhrases r) = Some up
          \<and> consecutiveCorrect up = 3
          \<and> requested_offset True up = enat 16
          \<and> nextQueue r = [''B'', ''A''])"
proof -
  have h: "find (\<lambda>p. pid p = ''A'') [card ''A'' 2 0 2, card ''B'' 0 0 0] = Some (card ''A'' 2 0 2)
           \<and> ''A'' \<noteq> [] \<and> consecutiveCorrect (card ''A'' 2 0 2) < 2 ^ 53"
    by (simp add: card_def)
  note g = C1_correct_answer_offset [of "''A''" "[card ''A'' 2 0 2, card ''B'' 0 0 0]"
      "card ''A'' 2 0 2" "[''A'', ''B'']" 5, THEN conjunct1, THEN mp, OF h]
  from g h show ?thesis by (auto simp: card_def shift_def)
qed

text \<open>
  C1 as stated fails from \<open>2 ^ 53\<close> on: a card imported with progress
  \<open>9007199254740992\<close> keeps that \<open>consecutiveCorrect\<close> after a correct answer, because
  the sum with 1 rounds back. It also fails for the offset of a streak of 1023, which is
  \<open>Infinity\<close> and not \<open>2 ^ 1024\<close>.
\<close>

theorem C1_rounding_counterexample:
  "calculateResult [importer_phrase ''A'' (seeded_item 9007199254740992)] (Some ''A'')
     [''A'', ''B''] 5 True =
     Inr (Some \<lparr> updatedPhrases =
                    [(importer_phrase ''A'' (seeded_item 9007199254740992))
                       \<lparr> lastReviewedAt := Some 5 \<rparr>],
                  nextQueue = [''B'', ''A''], insertOffset = 2 \<rparr>)
   \<and> consecutiveCorrect (importer_phrase ''A'' (seeded_item 9007199254740992))
       = 9007199254740992
   \<and> requested_offset True (card ''A'' 1023 0 1023) = \<infinity>
   \<and> requested_offset True (card ''A'' 1023 0 1023) \<noteq> enat (2 ^ (1023 + 1))"
  by (simp add: calculateResult_def importer_phrase_def seeded_item_def seed_correct_def
      seed_wrong_def card_def study_update_phrases_def requested_offset_def js_add1_def
      js_pow2_def reinsert_def splice_insert_def shift_def Let_def)

text \<open>
  C2, as amended. A wrong answer to the card \<open>p\<close> at the head whose \<open>consecutiveWrong\<close>
  is below \<open>2 ^ 53\<close> makes the scheduler return a result in which the card's
  \<open>consecutiveWrong\<close> is the prior value plus one, and the requested offset is 10 exactly
  when the incremented counter is positive and a multiple of 3, and 2 otherwise. In terms of
  the prior counter: 10 exactly when 3 divides the prior value plus one, so on the 3rd, 6th,
  9th consecutive miss and never on the 1st or 2nd. The id is inserted into the rest of the
  queue at the requested offset (at the end when the rest is shorter), and that offset is
  the one reported when it fits.
\<close>

theorem C2_wrong_answer_offset:
  "find (\<lambda>p. pid p = cid) ps = Some p \<and> cid \<noteq> [] \<and> consecutiveWrong p < 2 ^ 53 \<longrightarrow>
     (\<exists>r up. calculateResult ps (Some cid) q now False = Inr (Some r)
        \<and> find (\<lambda>p. pid p = cid) (updatedPhrases r) = Some up
        \<and> consecutiveWrong up = consecutiveWrong p + 1
        \<and> requested_offset False up =
            enat (if consecutiveWrong up > 0 \<and> consecutiveWrong up mod 3 = 0 then 10 else 2)
        \<and> (requested_offset False up = enat 10) = (3 dvd consecutiveWrong p + 1)
        \<and> (requested_offset False up = enat 2) = (\<not> 3 dvd consecutiveWrong p + 1)
        \<and> nextQueue r =
            take (if 3 dvd consecutiveWrong p + 1 then 10 else 2) (shift q) @ cid #
            drop (if 3 dvd consecutiveWrong p + 1 then 10 else 2) (shift q)
        \<and> ((if 3 dvd consecutiveWrong p + 1 then 10 else 2) \<le> length (shift q) \<longrightarrow>
             insertOffset r = (if 3 dvd consecutiveWrong p + 1 then 10 else 2)))"
proof
  assume h: "find (\<lambda>p. pid p = cid) ps = Some p \<and> cid \<noteq> [] \<and> consecutiveWrong p < 2 ^ 53"
  define up where "up = p\<lparr> totalReviews := js_add1 (totalReviews p),
              consecutiveCorrect := 0,
              consecutiveWrong := js_add1 (consecutiveWrong p), lastReviewedAt := Some now \<rparr>"
  define K :: nat where "K = (if 3 dvd consecutiveWrong p + 1 then 10 else 2)"
  define r where "r = \<lparr> updatedPhrases = study_update_phrases cid False now ps,
                      nextQueue = fst (reinsert (requested_offset False up) cid (shift q)),
                      insertOffset = snd (reinsert (requested_offset False up) cid (shift q)) \<rparr>"
  have res: "calculateResult ps (Some cid) q now False = Inr (Some r)"
    using h calculateResult_found [of cid ps p q now False] by (simp add: Let_def r_def up_def)
  have f: "find (\<lambda>p. pid p = cid) (updatedPhrases r) = Some up"
    using h find_study_update [of cid ps p False now] by (simp add: r_def up_def)
  have c: "consecutiveWrong up = consecutiveWrong p + 1"
    using h by (simp add: up_def js_add1_small)
  have k: "requested_offset False up =
            enat (if consecutiveWrong up > 0 \<and> consecutiveWrong up mod 3 = 0 then 10 else 2)"
    by (rule requested_offset_wrong)
  have kK: "requested_offset False up = enat K"
    by (simp add: k c K_def dvd_eq_mod_eq_0)
  have k10: "(requested_offset False up = enat 10) = (3 dvd consecutiveWrong p + 1)"
    by (simp add: kK K_def)
  have k2: "(requested_offset False up = enat 2) = (\<not> 3 dvd consecutiveWrong p + 1)"
    by (simp add: kK K_def)
  have nq: "nextQueue r = take K (shift q) @ cid # drop K (shift q)"
    by (simp add: r_def kK reinsert_finite)
  have io: "K \<le> length (shift q) \<longrightarrow> insertOffset r = K"
    by (simp add: r_def kK reinsert_finite)
  from res f c k k10 k2 nq io
  show "\<exists>r up. calculateResult ps (Some cid) q now False = Inr (Some r)
        \<and> find (\<lambda>p. pid p = cid) (updatedPhrases r) = Some up
        \<and> consecutiveWrong up = consecutiveWrong p + 1
        \<and> requested_offset False up =
            enat (if consecutiveWrong up > 0 \<and> consecutiveWrong up mod 3 = 0 then 10 else 2)
        \<and> (requested_offset False up = enat 10) = (3 dvd consecutiveWrong p + 1)
        \<and> (requested_offset False up = enat 2) = (\<not> 3 dvd consecutiveWrong p + 1)
        \<and> nextQueue r =
            take (if 3 dvd consecutiveWrong p + 1 then 10 else 2) (shift q) @ cid #
            drop (if 3 dvd consecutiveWrong p + 1 then 10 else 2) (shift q)
        \<and> ((if 3 dvd consecutiveWrong p + 1 then 10 else 2) \<le> length (shift q) \<longrightarrow>
             insertOffset r = (if 3 dvd consecutiveWrong p + 1 then 10 else 2))"
    unfolding K_def by (intro exI [of _ r] exI [of _ up] conjI)
qed

theorem C2_wrong_answer_offset_witness:
  "find (\<lambda>p. pid p = ''A'') [card ''A'' 0 2 2, card ''B'' 0 0 0] = Some (card ''A'' 0 2 2)
   \<and> ''A'' \<noteq> []
   \<and> consecutiveWrong (card ''A'' 0 2 2) < 2 ^ 53
   \<and> (\<exists>r up. calculateResult [card ''A'' 0 2 2, card ''B'' 0 0 0] (Some ''A'')
             [''A'', ''c1'', ''c2'', ''c3'', ''c4'', ''c5'', ''c6'', ''c7'', ''c8'', ''c9'', ''c10'', ''c11'']
             5 False = Inr (Some r)
          \<and> find (\<lambda>p. pid p = ''A'') (updatedPhrases r) = Some up
          \<and> consecutiveWrong up = 3
          \<and> requested_offset False up = enat 10
          \<and> nextQueue r =
             [''c1'', ''c2'', ''c3'', ''c4'', ''c5'', ''c6'', ''c7'', ''c8'', ''c9'', ''c10'', ''A'', ''c11'']
          \<and> insertOffset r = 10)"
proof -
  have h: "find (\<lambda>p. pid p = ''A'') [card ''A'' 0 2 2, card ''B'' 0 0 0] = Some (card ''A'' 0 2 2)
           \<and> ''A'' \<noteq> [] \<and> consecutiveWrong (card ''A'' 0 2 2) < 2 ^ 53"
    by (simp add: card_def)
  note g = C2_wrong_answer_offset [of "''A''" "[card ''A'' 0 2 2, card ''B'' 0 0 0]"
      "card ''A'' 0 2 2"
      "[''A'', ''c1'', ''c2'', ''c3'', ''c4'', ''c5'', ''c6'', ''c7'', ''c8'', ''c9'', ''c10'', ''c11'']" 5,
      THEN mp, OF h]
  from g h show ?thesis by (auto simp: card_def shift_def)
qed

text \<open>
  C2 as stated fails from \<open>2 ^ 53\<close> on: a card imported with progress
  \<open>-9007199254740992\<close> keeps that \<open>consecutiveWrong\<close> after a wrong answer, and the
  offset is 2, although 3 divides the prior value plus one.
\<close>

theorem C2_rounding_counterexample:
  "calculateResult [importer_phrase ''A'' (seeded_item (- 9007199254740992))] (Some ''A'')
     [''A'', ''B'', ''C'', ''D''] 5 False =
     Inr (Some \<lparr> updatedPhrases =
                    [(importer_phrase ''A'' (seeded_item (- 9007199254740992)))
                       \<lparr> lastReviewedAt := Some 5 \<rparr>],
                  nextQueue = [''B'', ''C'', ''A'', ''D''], insertOffset = 2 \<rparr>)
   \<and> consecutiveWrong (importer_phrase ''A'' (seeded_item (- 9007199254740992)))
       = 9007199254740992
   \<and> (9007199254740992 + 1) mod 3 = (0::nat)"
  by (simp add: calculateResult_def importer_phrase_def seeded_item_def seed_correct_def
      seed_wrong_def study_update_phrases_def requested_offset_def js_add1_def
      reinsert_def splice_insert_def shift_def Let_def)

section \<open>The reported offset when the card is appended\<close>

text \<open>
  C3. When the requested offset exceeds the length of the rest of the queue, the card is
  appended, and the reported offset is the length of the queue after the push, one more than
  the index the card ends at. In the queue \<open>[A,B,C]\<close>, a third consecutive wrong answer to
  \<open>A\<close> gives the queue \<open>[B,C,A]\<close> and reports 3; in a queue of length 1, an answer of
  either kind reports 1.
\<close>

theorem C3_reported_offset_after_push:
  "calculateResult [card ''A'' 0 2 2, card ''B'' 0 0 0, card ''C'' 0 0 0] (Some ''A'')
     [''A'', ''B'', ''C''] now False =
     Inr (Some \<lparr> updatedPhrases =
                    [(card ''A'' 0 3 3)\<lparr> lastReviewedAt := Some now \<rparr>, card ''B'' 0 0 0,
                     card ''C'' 0 0 0],
                  nextQueue = [''B'', ''C'', ''A''], insertOffset = 3 \<rparr>)
   \<and> calculateResult [card ''A'' 0 0 0] (Some ''A'') [''A''] now False =
     Inr (Some \<lparr> updatedPhrases = [(card ''A'' 0 1 1)\<lparr> lastReviewedAt := Some now \<rparr>],
                  nextQueue = [''A''], insertOffset = 1 \<rparr>)
   \<and> calculateResult [card ''A'' 0 0 0] (Some ''A'') [''A''] now True =
     Inr (Some \<lparr> updatedPhrases = [(card ''A'' 1 0 1)\<lparr> lastReviewedAt := Some now \<rparr>],
                  nextQueue = [''A''], insertOffset = 1 \<rparr>)"
  by (simp add: calculateResult_def card_def study_update_phrases_def requested_offset_def
      js_add1_def js_pow2_def reinsert_def splice_insert_def shift_def Let_def)

section \<open>Queue integrity\<close>

text \<open>
  C6. For a duplicate-free queue whose head is the answered card (a card of the deck, with a
  non-empty id), one scheduler step returns a queue that is a permutation of the original
  one: it has no duplicates and holds the answered id once and every other id once.
\<close>

theorem C6_queue_permutation:
  assumes "q = cid # rest" and "distinct q" and "cid \<noteq> []" and "cid \<in> set (map pid ps)"
  shows "\<exists>r. calculateResult ps (Some cid) q now isCorrect = Inr (Some r)
           \<and> mset (nextQueue r) = mset q
           \<and> distinct (nextQueue r)
           \<and> count (mset (nextQueue r)) cid = 1
           \<and> (\<forall>x \<in> set rest. count (mset (nextQueue r)) x = 1)
           \<and> set (nextQueue r) = set q"
proof -
  from assms(4) obtain p where p: "find (\<lambda>p. pid p = cid) ps = Some p"
    using find_pid_member by blast
  define up where "up = p\<lparr> totalReviews := js_add1 (totalReviews p),
              consecutiveCorrect := (if isCorrect then js_add1 (consecutiveCorrect p) else 0),
              consecutiveWrong := (if isCorrect then 0 else js_add1 (consecutiveWrong p)),
              lastReviewedAt := Some now \<rparr>"
  define k where "k = requested_offset isCorrect up"
  define r where "r = \<lparr> updatedPhrases = study_update_phrases cid isCorrect now ps,
                      nextQueue = fst (reinsert k cid (shift q)),
                      insertOffset = snd (reinsert k cid (shift q)) \<rparr>"
  have res: "calculateResult ps (Some cid) q now isCorrect = Inr (Some r)"
    using calculateResult_found [OF p assms(3), of q now isCorrect]
    by (simp add: Let_def r_def k_def up_def)
  have sh: "shift q = rest" using assms(1) by (simp add: shift_def)
  have "mset (nextQueue r) = add_mset cid (mset rest)"
    by (simp add: r_def sh reinsert_mset)
  also have "\<dots> = mset q"
    using assms(1) by simp
  finally have m: "mset (nextQueue r) = mset q" .
  have d: "distinct (nextQueue r)"
    using m assms(2) by (metis mset_eq_imp_distinct_iff)
  have s: "set (nextQueue r) = set q"
    using m by (metis mset_eq_setD)
  have "cid \<in> set q" using assms(1) by simp
  then have c1: "count (mset (nextQueue r)) cid = 1"
    using m assms(2) by (simp add: distinct_count_atmost_1)
  have c2: "\<forall>x \<in> set rest. count (mset (nextQueue r)) x = 1"
  proof
    fix x assume "x \<in> set rest"
    then have "x \<in> set q" using assms(1) by simp
    then show "count (mset (nextQueue r)) x = 1"
      using m assms(2) by (simp add: distinct_count_atmost_1)
  qed
  show ?thesis using res m d c1 c2 s by blast
qed

theorem C6_queue_permutation_witness:
  "[''A'', ''B'', ''C''] = ''A'' # [''B'', ''C''] \<and> distinct [''A'', ''B'', ''C'']
   \<and> ''A'' \<noteq> [] \<and> ''A'' \<in> set (map pid [card ''A'' 0 0 0, card ''B'' 0 0 0])
   \<and> (\<exists>r. calculateResult [card ''A'' 0 0 0, card ''B'' 0 0 0] (Some ''A'')
             [''A'', ''B'', ''C''] 5 False = Inr (Some r)
          \<and> mset (nextQueue r) = mset [''A'', ''B'', ''C'']
          \<and> distinct (nextQueue r))"
proof -
  have h1: "[''A'', ''B'', ''C''] = ''A'' # [''B'', ''C'']" by simp
  have h2: "distinct [''A'', ''B'', ''C'']" by simp
  have h3: "''A'' \<noteq> []" by simp
  have h4: "''A'' \<in> set (map pid [card ''A'' 0 0 0, card ''B'' 0 0 0])"
    by (simp add: card_def)
  from C6_queue_permutation [OF h1 h2 h3 h4, of 5 False] h1 h2 h3 h4
  show ?thesis by blast
qed

section \<open>Counters after an answer\<close>

lemma answers_to_append:
  "answers_to c (calls @ [(cid, b)]) = answers_to c calls + (if cid = c then 1 else 0)"
  by (simp add: answers_to_def)

lemma calculateResult_SomeD:
  assumes "calculateResult ps c q now isCorrect = Inr (Some r)"
  shows "\<exists>cid. c = Some cid \<and> cid \<noteq> [] \<and>
           updatedPhrases r = study_update_phrases cid isCorrect now ps"
  using assms
  by (auto simp: calculateResult_def Let_def split: option.splits if_splits)

lemma study_update_length: "length (study_update_phrases cid b now ps) = length ps"
  by (simp add: study_update_phrases_def)

lemma study_update_nth:
  "i < length ps \<Longrightarrow>
   study_update_phrases cid b now ps ! i =
     (if pid (ps ! i) = cid
      then (ps ! i)\<lparr> totalReviews := js_add1 (totalReviews (ps ! i)),
                      consecutiveCorrect :=
                        (if b then js_add1 (consecutiveCorrect (ps ! i)) else 0),
                      consecutiveWrong :=
                        (if b then 0 else js_add1 (consecutiveWrong (ps ! i))),
                      lastReviewedAt := Some now \<rparr>
      else ps ! i)"
  by (simp add: study_update_phrases_def)

lemma exam_handleVerdict_InrD:
  assumes "exam_handleVerdict now b e = Inr e'"
  shows "currentIndex e < length (questions e)
     \<and> questions e' = questions e
     \<and> isInitialized e' = isInitialized e
     \<and> questionCount e' = questionCount e
     \<and> exam_reviewLog e' = exam_reviewLog e @ [(pid (questions e ! currentIndex e), b)]
     \<and> phrases (exam_deck e') =
         map (\<lambda>p. if pid p = pid (questions e ! currentIndex e)
                   then p\<lparr> totalReviews := js_add1 (totalReviews p),
                           consecutiveCorrect :=
                             (if b then js_add1 (consecutiveCorrect p) else 0),
                           consecutiveWrong :=
                             (if b then 0 else js_add1 (consecutiveWrong p)),
                           lastReviewedAt := Some now \<rparr>
                   else p) (phrases (exam_deck e))"
  using assms
  by (auto simp: exam_handleVerdict_def Let_def split: if_splits)

lemma exam_handleVerdict_returns:
  "currentIndex e < length (questions e) \<Longrightarrow> \<exists>e'. exam_handleVerdict now b e = Inr e'"
  by (simp add: exam_handleVerdict_def Let_def)

text \<open>
  C4, as amended. An answer in study mode (\<open>calculateResult\<close>) and in exam mode
  (\<open>exam_handleVerdict\<close>) goes through whenever the answered card exists, and then every
  card with the answered id has the other counter zero and the counter of the outcome
  positive and not smaller than before: it is the prior value plus one when the prior value
  is below \<open>2 ^ 53\<close>. So exactly one of the two is non-zero; every other card is unchanged.
\<close>

theorem C4_counter_exclusivity:
  "(find (\<lambda>p. pid p = cid) ps = Some p \<and> cid \<noteq> [] \<longrightarrow>
      (\<exists>r. calculateResult ps (Some cid) q now isCorrect = Inr (Some r)))
   \<and> (calculateResult ps (Some cid) q now isCorrect = Inr (Some r) \<longrightarrow>
        length (updatedPhrases r) = length ps \<and>
        (\<forall>i < length ps.
           if pid (ps ! i) = cid
           then (if isCorrect
                 then consecutiveWrong (updatedPhrases r ! i) = 0
                    \<and> consecutiveCorrect (ps ! i) \<le> consecutiveCorrect (updatedPhrases r ! i)
                    \<and> (consecutiveCorrect (ps ! i) < 2 ^ 53 \<longrightarrow>
                         consecutiveCorrect (updatedPhrases r ! i) = consecutiveCorrect (ps ! i) + 1)
                 else consecutiveCorrect (updatedPhrases r ! i) = 0
                    \<and> consecutiveWrong (ps ! i) \<le> consecutiveWrong (updatedPhrases r ! i)
                    \<and> (consecutiveWrong (ps ! i) < 2 ^ 53 \<longrightarrow>
                         consecutiveWrong (updatedPhrases r ! i) = consecutiveWrong (ps ! i) + 1))
              \<and> (consecutiveCorrect (updatedPhrases r ! i) = 0) \<noteq>
                  (consecutiveWrong (updatedPhrases r ! i) = 0)
           else updatedPhrases r ! i = ps ! i))
   \<and> (currentIndex e < length (questions e) \<longrightarrow>
        (\<exists>e'. exam_handleVerdict now isCorrect e = Inr e'))
   \<and> (exam_handleVerdict now isCorrect e = Inr e' \<longrightarrow>
        length (phrases (exam_deck e')) = length (phrases (exam_deck e)) \<and>
        (\<forall>i < length (phrases (exam_deck e)).
           if pid (phrases (exam_deck e) ! i) = pid (questions e ! currentIndex e)
           then (if isCorrect
                 then consecutiveWrong (phrases (exam_deck e') ! i) = 0
                    \<and> consecutiveCorrect (phrases (exam_deck e) ! i)
                        \<le> consecutiveCorrect (phrases (exam_deck e') ! i)
                    \<and> (consecutiveCorrect (phrases (exam_deck e) ! i) < 2 ^ 53 \<longrightarrow>
                         consecutiveCorrect (phrases (exam_deck e') ! i)
                           = consecutiveCorrect (phrases (exam_deck e) ! i) + 1)
                 else consecutiveCorrect (phrases (exam_deck e') ! i) = 0
                    \<and> consecutiveWrong (phrases (exam_deck e) ! i)
                        \<le> consecutiveWrong (phrases (exam_deck e') ! i)
                    \<and> (consecutiveWrong (phrases (exam_deck e) ! i) < 2 ^ 53 \<longrightarrow>
                         consecutiveWrong (phrases (exam_deck e') ! i)
                           = consecutiveWrong (phrases (exam_deck e) ! i) + 1))
              \<and> (consecutiveCorrect (phrases (exam_deck e') ! i) = 0) \<noteq>
                  (consecutiveWrong (phrases (exam_deck e') ! i) = 0)
           else phrases (exam_deck e') ! i = phrases (exam_deck e) ! i))"
proof (intro conjI impI)
  assume "find (\<lambda>p. pid p = cid) ps = Some p \<and> cid \<noteq> []"
  then show "\<exists>r. calculateResult ps (Some cid) q now isCorrect = Inr (Some r)"
    using calculateResult_found [of cid ps p q now isCorrect] by (simp add: Let_def)
next
  assume a: "calculateResult ps (Some cid) q now isCorrect = Inr (Some r)"
  then have u: "updatedPhrases r = study_update_phrases cid isCorrect now ps"
    using calculateResult_SomeD by fastforce
  show "length (updatedPhrases r) = length ps"
    by (simp add: u study_update_length)
  show "\<forall>i < length ps.
           if pid (ps ! i) = cid
           then (if isCorrect
                 then consecutiveWrong (updatedPhrases r ! i) = 0
                    \<and> consecutiveCorrect (ps ! i) \<le> consecutiveCorrect (updatedPhrases r ! i)
                    \<and> (consecutiveCorrect (ps ! i) < 2 ^ 53 \<longrightarrow>
                         consecutiveCorrect (updatedPhrases r ! i) = consecutiveCorrect (ps ! i) + 1)
                 else consecutiveCorrect (updatedPhrases r ! i) = 0
                    \<and> consecutiveWrong (ps ! i) \<le> consecutiveWrong (updatedPhrases r ! i)
                    \<and> (consecutiveWrong (ps ! i) < 2 ^ 53 \<longrightarrow>
                         consecutiveWrong (updatedPhrases r ! i) = consecutiveWrong (ps ! i) + 1))
              \<and> (consecutiveCorrect (updatedPhrases r ! i) = 0) \<noteq>
                  (consecutiveWrong (updatedPhrases r ! i) = 0)
           else updatedPhrases r ! i = ps ! i"
    using js_add1_pos
    by (simp add: u study_update_nth js_add1_ge js_add1_small del: One_nat_def)
next
  assume "currentIndex e < length (questions e)"
  then show "\<exists>e'. exam_handleVerdict now isCorrect e = Inr e'"
    by (rule exam_handleVerdict_returns)
next
  assume a: "exam_handleVerdict now isCorrect e = Inr e'"
  note d = exam_handleVerdict_InrD [OF a]
  show "length (phrases (exam_deck e')) = length (phrases (exam_deck e))"
    using d by simp
  show "\<forall>i < length (phrases (exam_deck e)).
           if pid (phrases (exam_deck e) ! i) = pid (questions e ! currentIndex e)
           then (if isCorrect
                 then consecutiveWrong (phrases (exam_deck e') ! i) = 0
                    \<and> consecutiveCorrect (phrases (exam_deck e) ! i)
                        \<le> consecutiveCorrect (phrases (exam_deck e') ! i)
                    \<and> (consecutiveCorrect (phrases (exam_deck e) ! i) < 2 ^ 53 \<longrightarrow>
                         consecutiveCorrect (phrases (exam_deck e') ! i)
                           = consecutiveCorrect (phrases (exam_deck e) ! i) + 1)
                 else consecutiveCorrect (phrases (exam_deck e') ! i) = 0
                    \<and> consecutiveWrong (phrases (exam_deck e) ! i)
                        \<le> consecutiveWrong (phrases (exam_deck e') ! i)
                    \<and> (consecutiveWrong (phrases (exam_deck e) ! i) < 2 ^ 53 \<longrightarrow>
                         consecutiveWrong (phrases (exam_deck e') ! i)
                           = consecutiveWrong (phrases (exam_deck e) ! i) + 1))
              \<and> (consecutiveCorrect (phrases (exam_deck e') ! i) = 0) \<noteq>
                  (consecutiveWrong (phrases (exam_deck e') ! i) = 0)
           else phrases (exam_deck e') ! i = phrases (exam_deck e) ! i"
    using d js_add1_pos
    by (simp add: js_add1_ge js_add1_small del: One_nat_def)
qed

theorem C4_counter_exclusivity_witness:
  "(\<exists>r. calculateResult [card ''A'' 3 0 3] (Some ''A'') [''A''] 5 False = Inr (Some r)
        \<and> consecutiveCorrect (updatedPhrases r ! 0) = 0
        \<and> consecutiveWrong (updatedPhrases r ! 0) = 1)
   \<and> (\<exists>e'. exam_handleVerdict 5 True
               (exam_init_effect [card ''A'' 0 2 2] (exam_mount (example_deck [card ''A'' 0 2 2]) 1))
             = Inr e'
        \<and> consecutiveCorrect (phrases (exam_deck e') ! 0) = 1
        \<and> consecutiveWrong (phrases (exam_deck e') ! 0) = 0)"
proof
  have h: "find (\<lambda>p. pid p = ''A'') [card ''A'' 3 0 3] = Some (card ''A'' 3 0 3) \<and> ''A'' \<noteq> []"
    by (simp add: card_def)
  from C4_counter_exclusivity [of "''A''" "[card ''A'' 3 0 3]" "card ''A'' 3 0 3" "[''A'']" 5 False,
      THEN conjunct1, THEN mp, OF h]
  obtain r where r: "calculateResult [card ''A'' 3 0 3] (Some ''A'') [''A''] 5 False = Inr (Some r)" ..
  from C4_counter_exclusivity [of "''A''" "[card ''A'' 3 0 3]" "card ''A'' 3 0 3" "[''A'']" 5 False r,
      THEN conjunct2, THEN conjunct1, THEN mp, OF r]
  have "consecutiveCorrect (updatedPhrases r ! 0) = 0 \<and> consecutiveWrong (updatedPhrases r ! 0) = 1"
    by (simp add: card_def)
  with r show "\<exists>r. calculateResult [card ''A'' 3 0 3] (Some ''A'') [''A''] 5 False = Inr (Some r)
        \<and> consecutiveCorrect (updatedPhrases r ! 0) = 0
        \<and> consecutiveWrong (updatedPhrases r ! 0) = 1"
    by (intro exI [of _ r] conjI) simp_all
next
  let ?e = "exam_init_effect [card ''A'' 0 2 2] (exam_mount (example_deck [card ''A'' 0 2 2]) 1)"
  have q: "questions ?e = [card ''A'' 0 2 2]" "currentIndex ?e = 0"
    "phrases (exam_deck ?e) = [card ''A'' 0 2 2]"
    by (simp_all add: exam_init_effect_def exam_mount_def example_deck_def slice0_def Let_def)
  have h: "currentIndex ?e < length (questions ?e)"
    by (simp add: q)
  from C4_counter_exclusivity [of _ _ _ _ 5 True _ ?e,
      THEN conjunct2, THEN conjunct2, THEN conjunct1, THEN mp, OF h]
  obtain e' where e': "exam_handleVerdict 5 True ?e = Inr e'" ..
  from C4_counter_exclusivity [of _ _ _ _ 5 True _ ?e e',
      THEN conjunct2, THEN conjunct2, THEN conjunct2, THEN mp, OF e']
  have "consecutiveCorrect (phrases (exam_deck e') ! 0) = 1
      \<and> consecutiveWrong (phrases (exam_deck e') ! 0) = 0"
    by (simp only: q) (simp add: card_def)
  with e' show "\<exists>e'. exam_handleVerdict 5 True ?e = Inr e'
        \<and> consecutiveCorrect (phrases (exam_deck e') ! 0) = 1
        \<and> consecutiveWrong (phrases (exam_deck e') ! 0) = 0"
    by (intro exI [of _ e'] conjI) simp_all
qed

text \<open>
  C4 as stated fails from \<open>2 ^ 53\<close> on, in both modes: the counter of the outcome of a
  card imported with progress \<open>9007199254740992\<close> (or its negative) is not incremented
  by the answer.
\<close>

theorem C4_rounding_counterexample:
  "study_update_phrases ''A'' True 5 [importer_phrase ''A'' (seeded_item 9007199254740992)]
     = [(importer_phrase ''A'' (seeded_item 9007199254740992))\<lparr> lastReviewedAt := Some 5 \<rparr>]
   \<and> consecutiveCorrect (importer_phrase ''A'' (seeded_item 9007199254740992))
       = 9007199254740992
   \<and> exam_handleVerdict 5 False
       (exam_init_effect [importer_phrase ''A'' (seeded_item (- 9007199254740992))]
          (exam_mount (example_deck [importer_phrase ''A'' (seeded_item (- 9007199254740992))]) 1))
     = Inr ((exam_mount (example_deck [importer_phrase ''A'' (seeded_item (- 9007199254740992))]) 1)
             \<lparr> exam_deck :=
                 example_deck
                   [(importer_phrase ''A'' (seeded_item (- 9007199254740992)))
                      \<lparr> lastReviewedAt := Some 5 \<rparr>],
               questions := [importer_phrase ''A'' (seeded_item (- 9007199254740992))],
               step := RESULT, isFinished := True,
               results := [(importer_phrase ''A'' (seeded_item (- 9007199254740992)), False)],
               isInitialized := True,
               exam_reviewLog := [(''A'', False)] \<rparr>)
   \<and> consecutiveWrong (importer_phrase ''A'' (seeded_item (- 9007199254740992)))
       = 9007199254740992"
  by (simp add: study_update_phrases_def importer_phrase_def seeded_item_def seed_correct_def
      seed_wrong_def js_add1_def exam_handleVerdict_def exam_init_effect_def exam_mount_def
      example_deck_def slice0_def Let_def)

section \<open>Total reviews\<close>

lemma study_step_totalReviews:
  assumes "study_step ev s = Inr s'"
  shows "length (phrases (deck s')) = length (phrases (deck s)) \<and>
     (\<forall>i < length (phrases (deck s)).
        pid (phrases (deck s') ! i) = pid (phrases (deck s) ! i) \<and>
        (\<exists>n. answers_to (pid (phrases (deck s) ! i)) (reviewLog s')
               = answers_to (pid (phrases (deck s) ! i)) (reviewLog s) + n
           \<and> totalReviews (phrases (deck s') ! i)
               = (js_add1 ^^ n) (totalReviews (phrases (deck s) ! i))))"
proof -
  let ?goal = ?thesis
  have same: "phrases (deck s') = phrases (deck s) \<Longrightarrow> reviewLog s' = reviewLog s \<Longrightarrow> ?goal"
  proof -
    assume a: "phrases (deck s') = phrases (deck s)" and b: "reviewLog s' = reviewLog s"
    have "\<And>c t. \<exists>n. answers_to c (reviewLog s) = answers_to c (reviewLog s) + n
                    \<and> t = (js_add1 ^^ n) t"
      by (rule exI [of _ 0]) simp
    then show ?goal by (simp add: a b)
  qed
  have answered: "\<And>now b r cid.
      updatedPhrases r = study_update_phrases cid b now (phrases (deck s)) \<Longrightarrow>
      phrases (deck s') = updatedPhrases r \<Longrightarrow>
      reviewLog s' = reviewLog s @ [(cid, b)] \<Longrightarrow> ?goal"
  proof -
    fix now b r cid
    assume u: "updatedPhrases r = study_update_phrases cid b now (phrases (deck s))"
      and p: "phrases (deck s') = updatedPhrases r"
      and l: "reviewLog s' = reviewLog s @ [(cid, b)]"
    show ?goal
    proof (intro conjI allI impI)
      show "length (phrases (deck s')) = length (phrases (deck s))"
        by (simp add: p u study_update_length)
    next
      fix i assume i: "i < length (phrases (deck s))"
      show "pid (phrases (deck s') ! i) = pid (phrases (deck s) ! i)"
        using i by (simp add: p u study_update_nth)
    next
      fix i assume i: "i < length (phrases (deck s))"
      let ?n = "if cid = pid (phrases (deck s) ! i) then 1 else 0 :: nat"
      have "answers_to (pid (phrases (deck s) ! i)) (reviewLog s')
               = answers_to (pid (phrases (deck s) ! i)) (reviewLog s) + ?n
           \<and> totalReviews (phrases (deck s') ! i)
               = (js_add1 ^^ ?n) (totalReviews (phrases (deck s) ! i))"
        using i by (auto simp: p u l study_update_nth answers_to_append)
      then show "\<exists>n. answers_to (pid (phrases (deck s) ! i)) (reviewLog s')
               = answers_to (pid (phrases (deck s) ! i)) (reviewLog s) + n
           \<and> totalReviews (phrases (deck s') ! i)
               = (js_add1 ^^ n) (totalReviews (phrases (deck s) ! i))"
        by (rule exI [of _ ?n])
    qed
  qed
  show ?thesis
  proof (cases ev)
    case Know
    with assms show ?thesis by (intro same) (auto simp: handleKnow_def)
  next
    case Next
    with assms show ?thesis by (intro same) (auto simp: handleNext_def)
  next
    case Fallback
    with assms show ?thesis by (intro same) (auto simp: fallbackEffect_def)
  next
    case (DontKnow now)
    show ?thesis
    proof (cases "calculateResult (phrases (deck s)) (currentPhraseId s) (sessionQueue s) now False")
      case (Inl err)
      with assms DontKnow show ?thesis by (simp add: handleDontKnow_def)
    next
      case (Inr ro)
      show ?thesis
      proof (cases ro)
        case None
        with assms DontKnow Inr show ?thesis by (intro same) (simp_all add: handleDontKnow_def)
      next
        case (Some r)
        with Inr obtain cid where c: "currentPhraseId s = Some cid"
          and u: "updatedPhrases r = study_update_phrases cid False now (phrases (deck s))"
          using calculateResult_SomeD by blast
        from assms DontKnow Inr Some c
        have s': "phrases (deck s') = updatedPhrases r" "reviewLog s' = reviewLog s @ [(cid, False)]"
          by (auto simp: handleDontKnow_def onReview_call_def)
        from u s' show ?thesis by (rule answered)
      qed
    qed
  next
    case (Verdict now b)
    show ?thesis
    proof (cases "calculateResult (phrases (deck s)) (currentPhraseId s) (sessionQueue s) now b")
      case (Inl err)
      with assms Verdict show ?thesis by (simp add: handleVerdict_def)
    next
      case (Inr ro)
      show ?thesis
      proof (cases ro)
        case None
        with assms Verdict Inr show ?thesis by (intro same) (simp_all add: handleVerdict_def)
      next
        case (Some r)
        with Inr obtain cid where c: "currentPhraseId s = Some cid"
          and u: "updatedPhrases r = study_update_phrases cid b now (phrases (deck s))"
          using calculateResult_SomeD by blast
        from assms Verdict Inr Some c
        have s': "phrases (deck s') = updatedPhrases r" "reviewLog s' = reviewLog s @ [(cid, b)]"
          by (auto simp: handleVerdict_def onReview_call_def)
        from u s' show ?thesis by (rule answered)
      qed
    qed
  qed
qed

lemma study_run_totalReviews:
  "study_run evs s = Inr s' \<Longrightarrow>
     length (phrases (deck s')) = length (phrases (deck s)) \<and>
     (\<forall>i < length (phrases (deck s)).
        pid (phrases (deck s') ! i) = pid (phrases (deck s) ! i) \<and>
        (\<exists>n. answers_to (pid (phrases (deck s) ! i)) (reviewLog s')
               = answers_to (pid (phrases (deck s) ! i)) (reviewLog s) + n
           \<and> totalReviews (phrases (deck s') ! i)
               = (js_add1 ^^ n) (totalReviews (phrases (deck s) ! i))))"
proof (induction evs arbitrary: s)
  case Nil
  have "\<And>c t. \<exists>n. answers_to c (reviewLog s) = answers_to c (reviewLog s) + n
                  \<and> t = (js_add1 ^^ n) t"
    by (rule exI [of _ 0]) simp
  with Nil show ?case by simp
next
  case (Cons ev evs)
  then obtain s1 where s1: "study_step ev s = Inr s1" and r: "study_run evs s1 = Inr s'"
    by (auto split: sum.splits)
  note a = study_step_totalReviews [OF s1]
  note b = Cons.IH [OF r]
  show ?case
  proof (intro conjI allI impI)
    show "length (phrases (deck s')) = length (phrases (deck s))" using a b by simp
  next
    fix i assume i: "i < length (phrases (deck s))"
    then show "pid (phrases (deck s') ! i) = pid (phrases (deck s) ! i)" using a b by simp
  next
    fix i assume i: "i < length (phrases (deck s))"
    let ?c = "pid (phrases (deck s) ! i)"
    have p1: "pid (phrases (deck s1) ! i) = ?c" using a i by simp
    from a i obtain n1 where
      n1: "answers_to ?c (reviewLog s1) = answers_to ?c (reviewLog s) + n1"
      and t1: "totalReviews (phrases (deck s1) ! i)
                 = (js_add1 ^^ n1) (totalReviews (phrases (deck s) ! i))"
      by blast
    have i1: "i < length (phrases (deck s1))" using a i by simp
    from b i1 p1 obtain n2 where
      n2: "answers_to ?c (reviewLog s') = answers_to ?c (reviewLog s1) + n2"
      and t2: "totalReviews (phrases (deck s') ! i)
                 = (js_add1 ^^ n2) (totalReviews (phrases (deck s1) ! i))"
      by fastforce
    have "answers_to ?c (reviewLog s') = answers_to ?c (reviewLog s) + (n2 + n1)
         \<and> totalReviews (phrases (deck s') ! i)
             = (js_add1 ^^ (n2 + n1)) (totalReviews (phrases (deck s) ! i))"
      using n1 n2 t1 t2 by (simp add: funpow_add)
    then show "\<exists>n. answers_to ?c (reviewLog s') = answers_to ?c (reviewLog s) + n
           \<and> totalReviews (phrases (deck s') ! i)
               = (js_add1 ^^ n) (totalReviews (phrases (deck s) ! i))"
      by (rule exI [of _ "n2 + n1"])
  qed
qed

lemma exam_step_totalReviews:
  assumes "exam_step ev e = Inr e'"
  shows "length (phrases (exam_deck e')) = length (phrases (exam_deck e)) \<and>
     (\<forall>i < length (phrases (exam_deck e)).
        pid (phrases (exam_deck e') ! i) = pid (phrases (exam_deck e) ! i) \<and>
        (\<exists>n. answers_to (pid (phrases (exam_deck e) ! i)) (exam_reviewLog e')
               = answers_to (pid (phrases (exam_deck e) ! i)) (exam_reviewLog e) + n
           \<and> totalReviews (phrases (exam_deck e') ! i)
               = (js_add1 ^^ n) (totalReviews (phrases (exam_deck e) ! i))))"
proof -
  let ?goal = ?thesis
  have same: "phrases (exam_deck e') = phrases (exam_deck e) \<Longrightarrow>
      exam_reviewLog e' = exam_reviewLog e \<Longrightarrow> ?goal"
  proof -
    assume a: "phrases (exam_deck e') = phrases (exam_deck e)"
      and b: "exam_reviewLog e' = exam_reviewLog e"
    have "\<And>c t. \<exists>n. answers_to c (exam_reviewLog e) = answers_to c (exam_reviewLog e) + n
                    \<and> t = (js_add1 ^^ n) t"
      by (rule exI [of _ 0]) simp
    then show ?goal by (simp add: a b)
  qed
  show ?thesis
  proof (cases ev)
    case (InitEffect shuffled)
    with assms show ?thesis by (intro same) (auto simp: exam_init_effect_def Let_def)
  next
    case Reveal
    with assms show ?thesis by (intro same) (auto simp: handleReveal_def)
  next
    case (ExamVerdict now b)
    with assms have "exam_handleVerdict now b e = Inr e'" by simp
    note d = exam_handleVerdict_InrD [OF this]
    let ?cid = "pid (questions e ! currentIndex e)"
    show ?thesis
    proof (intro conjI allI impI)
      show "length (phrases (exam_deck e')) = length (phrases (exam_deck e))"
        using d by simp
    next
      fix i assume i: "i < length (phrases (exam_deck e))"
      show "pid (phrases (exam_deck e') ! i) = pid (phrases (exam_deck e) ! i)"
        using d i by simp
    next
      fix i assume i: "i < length (phrases (exam_deck e))"
      let ?n = "if ?cid = pid (phrases (exam_deck e) ! i) then 1 else 0 :: nat"
      have "answers_to (pid (phrases (exam_deck e) ! i)) (exam_reviewLog e')
               = answers_to (pid (phrases (exam_deck e) ! i)) (exam_reviewLog e) + ?n
           \<and> totalReviews (phrases (exam_deck e') ! i)
               = (js_add1 ^^ ?n) (totalReviews (phrases (exam_deck e) ! i))"
        using d i by (auto simp: answers_to_append)
      then show "\<exists>n. answers_to (pid (phrases (exam_deck e) ! i)) (exam_reviewLog e')
               = answers_to (pid (phrases (exam_deck e) ! i)) (exam_reviewLog e) + n
           \<and> totalReviews (phrases (exam_deck e') ! i)
               = (js_add1 ^^ n) (totalReviews (phrases (exam_deck e) ! i))"
        by (rule exI [of _ ?n])
    qed
  qed
qed

lemma exam_run_totalReviews:
  "exam_run evs e = Inr e' \<Longrightarrow>
     length (phrases (exam_deck e')) = length (phrases (exam_deck e)) \<and>
     (\<forall>i < length (phrases (exam_deck e)).
        pid (phrases (exam_deck e') ! i) = pid (phrases (exam_deck e) ! i) \<and>
        (\<exists>n. answers_to (pid (phrases (exam_deck e) ! i)) (exam_reviewLog e')
               = answers_to (pid (phrases (exam_deck e) ! i)) (exam_reviewLog e) + n
           \<and> totalReviews (phrases (exam_deck e') ! i)
               = (js_add1 ^^ n) (totalReviews (phrases (exam_deck e) ! i))))"
proof (induction evs arbitrary: e)
  case Nil
  have "\<And>c t. \<exists>n. answers_to c (exam_reviewLog e) = answers_to c (exam_reviewLog e) + n
                  \<and> t = (js_add1 ^^ n) t"
    by (rule exI [of _ 0]) simp
  with Nil show ?case by simp
next
  case (Cons ev evs)
  then obtain e1 where e1: "exam_step ev e = Inr e1" and r: "exam_run evs e1 = Inr e'"
    by (auto split: sum.splits)
  note a = exam_step_totalReviews [OF e1]
  note b = Cons.IH [OF r]
  show ?case
  proof (intro conjI allI impI)
    show "length (phrases (exam_deck e')) = length (phrases (exam_deck e))" using a b by simp
  next
    fix i assume i: "i < length (phrases (exam_deck e))"
    then show "pid (phrases (exam_deck e') ! i) = pid (phrases (exam_deck e) ! i)"
      using a b by simp
  next
    fix i assume i: "i < length (phrases (exam_deck e))"
    let ?c = "pid (phrases (exam_deck e) ! i)"
    have p1: "pid (phrases (exam_deck e1) ! i) = ?c" using a i by simp
    from a i obtain n1 where
      n1: "answers_to ?c (exam_reviewLog e1) = answers_to ?c (exam_reviewLog e) + n1"
      and t1: "totalReviews (phrases (exam_deck e1) ! i)
                 = (js_add1 ^^ n1) (totalReviews (phrases (exam_deck e) ! i))"
      by blast
    have i1: "i < length (phrases (exam_deck e1))" using a i by simp
    from b i1 p1 obtain n2 where
      n2: "answers_to ?c (exam_reviewLog e') = answers_to ?c (exam_reviewLog e1) + n2"
      and t2: "totalReviews (phrases (exam_deck e') ! i)
                 = (js_add1 ^^ n2) (totalReviews (phrases (exam_deck e1) ! i))"
      by fastforce
    have "answers_to ?c (exam_reviewLog e') = answers_to ?c (exam_reviewLog e) + (n2 + n1)
         \<and> totalReviews (phrases (exam_deck e') ! i)
             = (js_add1 ^^ (n2 + n1)) (totalReviews (phrases (exam_deck e) ! i))"
      using n1 n2 t1 t2 by (simp add: funpow_add)
    then show "\<exists>n. answers_to ?c (exam_reviewLog e') = answers_to ?c (exam_reviewLog e) + n
           \<and> totalReviews (phrases (exam_deck e') ! i)
               = (js_add1 ^^ n) (totalReviews (phrases (exam_deck e) ! i))"
      by (rule exI [of _ "n2 + n1"])
  qed
qed

text \<open>A well-formed session stays well-formed, and none of its steps throws.\<close>

lemma study_update_pids: "map pid (study_update_phrases cid b now ps) = map pid ps"
  by (simp add: study_update_phrases_def)

lemma set_shift: "set (shift q) \<subseteq> set q"
  by (cases q) (auto simp: shift_def)

lemma reinsert_set: "set (fst (reinsert k cid nq)) = insert cid (set nq)"
proof -
  have "set_mset (mset (fst (reinsert k cid nq))) = set_mset (add_mset cid (mset nq))"
    by (simp only: reinsert_mset)
  then show ?thesis by simp
qed

lemma study_init_ok:
  "set (queue d) \<subseteq> set (map pid (phrases d)) \<Longrightarrow> session_ok (study_init d)"
  by (cases "queue d") (simp_all add: session_ok_def study_init_def)

lemma calculateResult_ok:
  assumes "session_ok s"
  shows "calculateResult (phrases (deck s)) (currentPhraseId s) (sessionQueue s) now b = Inr None
     \<or> (\<exists>r. calculateResult (phrases (deck s)) (currentPhraseId s) (sessionQueue s) now b
               = Inr (Some r)
             \<and> map pid (updatedPhrases r) = map pid (phrases (deck s))
             \<and> set (nextQueue r) \<subseteq> set (map pid (phrases (deck s))))"
proof (cases "currentPhraseId s")
  case None
  then show ?thesis by (simp add: calculateResult_def)
next
  case (Some cid)
  show ?thesis
  proof (cases "cid = []")
    case True
    with Some show ?thesis by (simp add: calculateResult_def)
  next
    case False
    from assms Some have m: "cid \<in> set (map pid (phrases (deck s)))"
      by (simp add: session_ok_def)
    then obtain p where p: "find (\<lambda>p. pid p = cid) (phrases (deck s)) = Some p"
      using find_pid_member by blast
    have q: "set (sessionQueue s) \<subseteq> set (map pid (phrases (deck s)))"
      using assms by (simp add: session_ok_def)
    have sh: "set (shift (sessionQueue s)) \<subseteq> set (map pid (phrases (deck s)))"
      by (rule subset_trans [OF set_shift q])
    have nq: "\<And>k. set (fst (reinsert k cid (shift (sessionQueue s))))
                 \<subseteq> set (map pid (phrases (deck s)))"
      using sh m by (simp only: reinsert_set insert_subset)
    show ?thesis
      using Some nq calculateResult_found [OF p False, of "sessionQueue s" now b]
      by (simp add: Let_def study_update_pids)
  qed
qed

lemma study_step_ok:
  assumes "session_ok s"
  shows "\<exists>s'. study_step ev s = Inr s' \<and> session_ok s'"
proof (cases ev)
  case Know
  with assms show ?thesis by (simp add: handleKnow_def session_ok_def)
next
  case Next
  with assms show ?thesis
    by (cases "sessionQueue s") (simp_all add: handleNext_def session_ok_def)
next
  case Fallback
  with assms show ?thesis
    by (cases "sessionQueue s") (simp_all add: fallbackEffect_def session_ok_def)
next
  case (DontKnow now)
  from calculateResult_ok [OF assms, of now False]
  show ?thesis
  proof
    assume "calculateResult (phrases (deck s)) (currentPhraseId s) (sessionQueue s) now False
              = Inr None"
    with DontKnow assms show ?thesis by (simp add: handleDontKnow_def)
  next
    assume "\<exists>r. calculateResult (phrases (deck s)) (currentPhraseId s) (sessionQueue s) now False
               = Inr (Some r)
             \<and> map pid (updatedPhrases r) = map pid (phrases (deck s))
             \<and> set (nextQueue r) \<subseteq> set (map pid (phrases (deck s)))"
    then obtain r where
      r: "calculateResult (phrases (deck s)) (currentPhraseId s) (sessionQueue s) now False
               = Inr (Some r)"
      and i0: "map pid (updatedPhrases r) = map pid (phrases (deck s))"
      and q: "set (nextQueue r) \<subseteq> set (map pid (phrases (deck s)))" by blast
    have i: "pid ` set (updatedPhrases r) = pid ` set (phrases (deck s))"
      using i0 by (metis set_map)
    have c: "set_option (currentPhraseId s) \<subseteq> set (map pid (phrases (deck s)))"
      using assms by (simp add: session_ok_def)
    show ?thesis
      using DontKnow r q c by (simp add: handleDontKnow_def session_ok_def i)
  qed
next
  case (Verdict now b)
  from calculateResult_ok [OF assms, of now b]
  show ?thesis
  proof
    assume "calculateResult (phrases (deck s)) (currentPhraseId s) (sessionQueue s) now b
              = Inr None"
    with Verdict assms show ?thesis by (simp add: handleVerdict_def)
  next
    assume "\<exists>r. calculateResult (phrases (deck s)) (currentPhraseId s) (sessionQueue s) now b
               = Inr (Some r)
             \<and> map pid (updatedPhrases r) = map pid (phrases (deck s))
             \<and> set (nextQueue r) \<subseteq> set (map pid (phrases (deck s)))"
    then obtain r where
      r: "calculateResult (phrases (deck s)) (currentPhraseId s) (sessionQueue s) now b
               = Inr (Some r)"
      and i0: "map pid (updatedPhrases r) = map pid (phrases (deck s))"
      and q: "set (nextQueue r) \<subseteq> set (map pid (phrases (deck s)))" by blast
    have i: "pid ` set (updatedPhrases r) = pid ` set (phrases (deck s))"
      using i0 by (metis set_map)
    have c: "set_option (currentPhraseId s) \<subseteq> set (map pid (phrases (deck s)))"
      using assms by (simp add: session_ok_def)
    show ?thesis
      using Verdict r q c by (simp add: handleVerdict_def session_ok_def i)
  qed
qed

lemma study_run_returns:
  "session_ok s \<Longrightarrow> \<exists>s'. study_run evs s = Inr s'"
proof (induction evs arbitrary: s)
  case Nil
  then show ?case by simp
next
  case (Cons ev evs)
  from study_step_ok [OF Cons.prems, of ev]
  obtain s1 where "study_step ev s = Inr s1" and "session_ok s1" by blast
  with Cons.IH [of s1] show ?case by simp
qed

text \<open>
  C5, as amended. One answer, in study mode and in exam mode, adds exactly one to
  \<open>totalReviews\<close> of the answered card, whatever the outcome, as long as it is below
  \<open>2 ^ 53\<close> (and never lowers it), and changes the count of no other card. Over a whole
  session started from a deck \<open>d\<close>, whatever the events of the answer path, the card at
  each position keeps its id, and its \<open>totalReviews\<close> is the initial value plus the number
  of answers given to it as long as that sum is at most \<open>2 ^ 53\<close>; a card that starts at 0
  ends at the number of its answers. A study session on a deck whose queue holds ids of its
  cards only never throws.
\<close>

theorem C5_totalReviews_counts_answers:
  "(calculateResult ps (Some cid) q now isCorrect = Inr (Some r) \<longrightarrow>
      (\<forall>i < length ps.
         (pid (ps ! i) \<noteq> cid \<longrightarrow> totalReviews (updatedPhrases r ! i) = totalReviews (ps ! i))
         \<and> (pid (ps ! i) = cid \<longrightarrow>
              totalReviews (ps ! i) \<le> totalReviews (updatedPhrases r ! i)
              \<and> (totalReviews (ps ! i) < 2 ^ 53 \<longrightarrow>
                   totalReviews (updatedPhrases r ! i) = totalReviews (ps ! i) + 1))))
   \<and> (exam_handleVerdict now isCorrect e = Inr e1 \<longrightarrow>
      (\<forall>i < length (phrases (exam_deck e)).
         (pid (phrases (exam_deck e) ! i) \<noteq> pid (questions e ! currentIndex e) \<longrightarrow>
            totalReviews (phrases (exam_deck e1) ! i) = totalReviews (phrases (exam_deck e) ! i))
         \<and> (pid (phrases (exam_deck e) ! i) = pid (questions e ! currentIndex e) \<longrightarrow>
              totalReviews (phrases (exam_deck e) ! i) \<le> totalReviews (phrases (exam_deck e1) ! i)
              \<and> (totalReviews (phrases (exam_deck e) ! i) < 2 ^ 53 \<longrightarrow>
                   totalReviews (phrases (exam_deck e1) ! i)
                     = totalReviews (phrases (exam_deck e) ! i) + 1))))
   \<and> (study_run evs (study_init d) = Inr s' \<longrightarrow>
      length (phrases (deck s')) = length (phrases d) \<and>
      (\<forall>i < length (phrases d).
         pid (phrases (deck s') ! i) = pid (phrases d ! i) \<and>
         (totalReviews (phrases d ! i) + answers_to (pid (phrases d ! i)) (reviewLog s')
            \<le> 2 ^ 53 \<longrightarrow>
          totalReviews (phrases (deck s') ! i) =
            totalReviews (phrases d ! i) + answers_to (pid (phrases d ! i)) (reviewLog s')) \<and>
         (totalReviews (phrases d ! i) = 0
            \<and> answers_to (pid (phrases d ! i)) (reviewLog s') \<le> 2 ^ 53 \<longrightarrow>
          totalReviews (phrases (deck s') ! i) =
            answers_to (pid (phrases d ! i)) (reviewLog s'))))
   \<and> (exam_run xevs (exam_mount d n) = Inr e' \<longrightarrow>
      length (phrases (exam_deck e')) = length (phrases d) \<and>
      (\<forall>i < length (phrases d).
         pid (phrases (exam_deck e') ! i) = pid (phrases d ! i) \<and>
         (totalReviews (phrases d ! i) + answers_to (pid (phrases d ! i)) (exam_reviewLog e')
            \<le> 2 ^ 53 \<longrightarrow>
          totalReviews (phrases (exam_deck e') ! i) =
            totalReviews (phrases d ! i) + answers_to (pid (phrases d ! i)) (exam_reviewLog e')) \<and>
         (totalReviews (phrases d ! i) = 0
            \<and> answers_to (pid (phrases d ! i)) (exam_reviewLog e') \<le> 2 ^ 53 \<longrightarrow>
          totalReviews (phrases (exam_deck e') ! i) =
            answers_to (pid (phrases d ! i)) (exam_reviewLog e'))))
   \<and> (set (queue d) \<subseteq> set (map pid (phrases d)) \<longrightarrow>
        (\<exists>s1. study_run evs (study_init d) = Inr s1))"
proof (intro conjI impI)
  assume "set (queue d) \<subseteq> set (map pid (phrases d))"
  then have "session_ok (study_init d)" by (rule study_init_ok)
  then show "\<exists>s1. study_run evs (study_init d) = Inr s1" by (rule study_run_returns)
next
  assume a: "calculateResult ps (Some cid) q now isCorrect = Inr (Some r)"
  then have u: "updatedPhrases r = study_update_phrases cid isCorrect now ps"
    using calculateResult_SomeD by fastforce
  show "\<forall>i < length ps.
         (pid (ps ! i) \<noteq> cid \<longrightarrow> totalReviews (updatedPhrases r ! i) = totalReviews (ps ! i))
         \<and> (pid (ps ! i) = cid \<longrightarrow>
              totalReviews (ps ! i) \<le> totalReviews (updatedPhrases r ! i)
              \<and> (totalReviews (ps ! i) < 2 ^ 53 \<longrightarrow>
                   totalReviews (updatedPhrases r ! i) = totalReviews (ps ! i) + 1))"
    by (simp add: u study_update_nth js_add1_ge js_add1_small del: One_nat_def)
next
  assume a: "exam_handleVerdict now isCorrect e = Inr e1"
  note d = exam_handleVerdict_InrD [OF a]
  show "\<forall>i < length (phrases (exam_deck e)).
         (pid (phrases (exam_deck e) ! i) \<noteq> pid (questions e ! currentIndex e) \<longrightarrow>
            totalReviews (phrases (exam_deck e1) ! i) = totalReviews (phrases (exam_deck e) ! i))
         \<and> (pid (phrases (exam_deck e) ! i) = pid (questions e ! currentIndex e) \<longrightarrow>
              totalReviews (phrases (exam_deck e) ! i) \<le> totalReviews (phrases (exam_deck e1) ! i)
              \<and> (totalReviews (phrases (exam_deck e) ! i) < 2 ^ 53 \<longrightarrow>
                   totalReviews (phrases (exam_deck e1) ! i)
                     = totalReviews (phrases (exam_deck e) ! i) + 1))"
    using d by (simp add: js_add1_ge js_add1_small del: One_nat_def)
next
  assume a: "study_run evs (study_init d) = Inr s'"
  have i0: "phrases (deck (study_init d)) = phrases d" "reviewLog (study_init d) = []"
    by (simp_all add: study_init_def)
  note t = study_run_totalReviews [OF a]
  show "length (phrases (deck s')) = length (phrases d)"
    using t by (simp add: i0)
  show "\<forall>i < length (phrases d).
         pid (phrases (deck s') ! i) = pid (phrases d ! i) \<and>
         (totalReviews (phrases d ! i) + answers_to (pid (phrases d ! i)) (reviewLog s')
            \<le> 2 ^ 53 \<longrightarrow>
          totalReviews (phrases (deck s') ! i) =
            totalReviews (phrases d ! i) + answers_to (pid (phrases d ! i)) (reviewLog s')) \<and>
         (totalReviews (phrases d ! i) = 0
            \<and> answers_to (pid (phrases d ! i)) (reviewLog s') \<le> 2 ^ 53 \<longrightarrow>
          totalReviews (phrases (deck s') ! i) =
            answers_to (pid (phrases d ! i)) (reviewLog s'))"
  proof (intro allI impI)
    fix i assume i: "i < length (phrases d)"
    let ?c = "pid (phrases d ! i)"
    from t i obtain k where
      p: "pid (phrases (deck s') ! i) = ?c"
      and k: "answers_to ?c (reviewLog s') = k"
      and v: "totalReviews (phrases (deck s') ! i) = (js_add1 ^^ k) (totalReviews (phrases d ! i))"
      by (auto simp: i0 answers_to_def)
    have 1: "totalReviews (phrases d ! i) + k \<le> 2 ^ 53 \<longrightarrow>
          totalReviews (phrases (deck s') ! i) = totalReviews (phrases d ! i) + k"
      by (simp add: v js_add1_funpow)
    have 2: "totalReviews (phrases d ! i) = 0 \<and> k \<le> 2 ^ 53 \<longrightarrow>
          totalReviews (phrases (deck s') ! i) = k"
      using js_add1_funpow [of 0 k] by (auto simp: v)
    from p 1 2 show "pid (phrases (deck s') ! i) = ?c \<and>
         (totalReviews (phrases d ! i) + answers_to ?c (reviewLog s') \<le> 2 ^ 53 \<longrightarrow>
          totalReviews (phrases (deck s') ! i) =
            totalReviews (phrases d ! i) + answers_to ?c (reviewLog s')) \<and>
         (totalReviews (phrases d ! i) = 0 \<and> answers_to ?c (reviewLog s') \<le> 2 ^ 53 \<longrightarrow>
          totalReviews (phrases (deck s') ! i) = answers_to ?c (reviewLog s'))"
      unfolding k by (intro conjI)
  qed
next
  assume a: "exam_run xevs (exam_mount d n) = Inr e'"
  have i0: "phrases (exam_deck (exam_mount d n)) = phrases d"
    "exam_reviewLog (exam_mount d n) = []"
    by (simp_all add: exam_mount_def)
  note t = exam_run_totalReviews [OF a]
  show "length (phrases (exam_deck e')) = length (phrases d)"
    using t by (simp add: i0)
  show "\<forall>i < length (phrases d).
         pid (phrases (exam_deck e') ! i) = pid (phrases d ! i) \<and>
         (totalReviews (phrases d ! i) + answers_to (pid (phrases d ! i)) (exam_reviewLog e')
            \<le> 2 ^ 53 \<longrightarrow>
          totalReviews (phrases (exam_deck e') ! i) =
            totalReviews (phrases d ! i) + answers_to (pid (phrases d ! i)) (exam_reviewLog e')) \<and>
         (totalReviews (phrases d ! i) = 0
            \<and> answers_to (pid (phrases d ! i)) (exam_reviewLog e') \<le> 2 ^ 53 \<longrightarrow>
          totalReviews (phrases (exam_deck e') ! i) =
            answers_to (pid (phrases d ! i)) (exam_reviewLog e'))"
  proof (intro allI impI)
    fix i assume i: "i < length (phrases d)"
    let ?c = "pid (phrases d ! i)"
    from t i obtain k where
      p: "pid (phrases (exam_deck e') ! i) = ?c"
      and k: "answers_to ?c (exam_reviewLog e') = k"
      and v: "totalReviews (phrases (exam_deck e') ! i)
                = (js_add1 ^^ k) (totalReviews (phrases d ! i))"
      by (auto simp: i0 answers_to_def)
    have 1: "totalReviews (phrases d ! i) + k \<le> 2 ^ 53 \<longrightarrow>
          totalReviews (phrases (exam_deck e') ! i) = totalReviews (phrases d ! i) + k"
      by (simp add: v js_add1_funpow)
    have 2: "totalReviews (phrases d ! i) = 0 \<and> k \<le> 2 ^ 53 \<longrightarrow>
          totalReviews (phrases (exam_deck e') ! i) = k"
      using js_add1_funpow [of 0 k] by (auto simp: v)
    from p 1 2 show "pid (phrases (exam_deck e') ! i) = ?c \<and>
         (totalReviews (phrases d ! i) + answers_to ?c (exam_reviewLog e') \<le> 2 ^ 53 \<longrightarrow>
          totalReviews (phrases (exam_deck e') ! i) =
            totalReviews (phrases d ! i) + answers_to ?c (exam_reviewLog e')) \<and>
         (totalReviews (phrases d ! i) = 0 \<and> answers_to ?c (exam_reviewLog e') \<le> 2 ^ 53 \<longrightarrow>
          totalReviews (phrases (exam_deck e') ! i) = answers_to ?c (exam_reviewLog e'))"
      unfolding k by (intro conjI)
  qed
qed

text \<open>The definitions that a concrete run unfolds.\<close>

lemmas study_eval = study_init_def example_deck_def card_def handleKnow_def handleNext_def
  fallbackEffect_def
  handleVerdict_def handleDontKnow_def calculateResult_def study_update_phrases_def
  requested_offset_def js_add1_def js_pow2_def reinsert_def splice_insert_def shift_def
  onReview_call_def Let_def

lemmas exam_eval = exam_mount_def example_deck_def card_def exam_init_effect_def slice0_def
  handleReveal_def exam_handleVerdict_def js_add1_def Let_def

theorem C5_totalReviews_counts_answers_witness:
  "(\<exists>r. calculateResult [card ''A'' 0 0 0] (Some ''A'') [''A''] 5 True = Inr (Some r)
        \<and> totalReviews (updatedPhrases r ! 0) = 1)
   \<and> (\<exists>e1. exam_handleVerdict 5 False
               (exam_init_effect [card ''A'' 0 0 0] (exam_mount (example_deck [card ''A'' 0 0 0]) 1))
             = Inr e1
        \<and> totalReviews (phrases (exam_deck e1) ! 0) = 1)
   \<and> (\<exists>s'. study_run [Know, Verdict 1 True, Next, Fallback, DontKnow 2, Next, DontKnow 3]
               (study_init (example_deck [card ''A'' 0 0 0, card ''B'' 0 0 0])) = Inr s'
        \<and> totalReviews (phrases (deck s') ! 0) = 2
        \<and> totalReviews (phrases (deck s') ! 1) = 1)
   \<and> (\<exists>e'. exam_run [InitEffect [card ''B'' 0 0 0, card ''A'' 0 0 0], Reveal,
                       ExamVerdict 1 True, Reveal, ExamVerdict 2 False]
               (exam_mount (example_deck [card ''A'' 0 0 0, card ''B'' 0 0 0]) 5) = Inr e'
        \<and> totalReviews (phrases (exam_deck e') ! 0) = 1
        \<and> totalReviews (phrases (exam_deck e') ! 1) = 1)"
proof (intro conjI)
  have "\<exists>r. calculateResult [card ''A'' 0 0 0] (Some ''A'') [''A''] 5 True = Inr (Some r)"
    by (simp add: study_eval)
  then obtain r where r: "calculateResult [card ''A'' 0 0 0] (Some ''A'') [''A''] 5 True = Inr (Some r)" ..
  from C5_totalReviews_counts_answers [of "[card ''A'' 0 0 0]" "''A''" "[''A'']" 5 True r,
      THEN conjunct1, THEN mp, OF r]
  have t: "totalReviews (updatedPhrases r ! 0) = 1"
    by (simp add: card_def)
  from r t show "\<exists>r. calculateResult [card ''A'' 0 0 0] (Some ''A'') [''A''] 5 True = Inr (Some r)
        \<and> totalReviews (updatedPhrases r ! 0) = 1"
    by (intro exI [of _ r] conjI)
next
  let ?e = "exam_init_effect [card ''A'' 0 0 0] (exam_mount (example_deck [card ''A'' 0 0 0]) 1)"
  have q: "questions ?e = [card ''A'' 0 0 0]" "currentIndex ?e = 0"
    "phrases (exam_deck ?e) = [card ''A'' 0 0 0]"
    by (simp_all add: exam_init_effect_def exam_mount_def example_deck_def slice0_def Let_def)
  have "\<exists>e1. exam_handleVerdict 5 False ?e = Inr e1"
    by (simp add: exam_handleVerdict_def q Let_def)
  then obtain e1 where e1: "exam_handleVerdict 5 False ?e = Inr e1" ..
  from C5_totalReviews_counts_answers [of _ _ _ 5 False _ ?e e1,
      THEN conjunct2, THEN conjunct1, THEN mp, OF e1]
  have t: "totalReviews (phrases (exam_deck e1) ! 0) = 1"
    by (simp only: q) (simp add: card_def)
  from e1 t show "\<exists>e1. exam_handleVerdict 5 False ?e = Inr e1
        \<and> totalReviews (phrases (exam_deck e1) ! 0) = 1"
    by (intro exI [of _ e1] conjI)
next
  let ?d = "example_deck [card ''A'' 0 0 0, card ''B'' 0 0 0]"
  let ?evs = "[Know, Verdict 1 True, Next, Fallback, DontKnow 2, Next, DontKnow 3]"
  have "\<exists>s'. study_run ?evs (study_init ?d) = Inr s'
           \<and> reviewLog s' = [(''A'', True), (''B'', False), (''A'', False)]"
    by (simp add: study_eval)
  then obtain s' where s': "study_run ?evs (study_init ?d) = Inr s'"
    and l: "reviewLog s' = [(''A'', True), (''B'', False), (''A'', False)]" by (elim exE conjE)
  have d: "phrases ?d = [card ''A'' 0 0 0, card ''B'' 0 0 0]"
    by (simp add: example_deck_def)
  from C5_totalReviews_counts_answers [of _ _ _ _ _ _ _ _ ?evs ?d s',
      THEN conjunct2, THEN conjunct2, THEN conjunct1, THEN mp, OF s']
  have t: "totalReviews (phrases (deck s') ! 0) = 2 \<and> totalReviews (phrases (deck s') ! 1) = 1"
    by (simp only: d l) (simp add: card_def answers_to_def)
  from s' t show "\<exists>s'. study_run ?evs (study_init ?d) = Inr s'
        \<and> totalReviews (phrases (deck s') ! 0) = 2
        \<and> totalReviews (phrases (deck s') ! 1) = 1"
    by (intro exI [of _ s'] conjI) simp_all
next
  let ?d = "example_deck [card ''A'' 0 0 0, card ''B'' 0 0 0]"
  let ?evs = "[InitEffect [card ''B'' 0 0 0, card ''A'' 0 0 0], Reveal,
                       ExamVerdict 1 True, Reveal, ExamVerdict 2 False]"
  have "\<exists>e'. exam_run ?evs (exam_mount ?d 5) = Inr e'
           \<and> exam_reviewLog e' = [(''B'', True), (''A'', False)]"
    by (simp add: exam_eval)
  then obtain e' where e': "exam_run ?evs (exam_mount ?d 5) = Inr e'"
    and l: "exam_reviewLog e' = [(''B'', True), (''A'', False)]" by (elim exE conjE)
  have d: "phrases ?d = [card ''A'' 0 0 0, card ''B'' 0 0 0]"
    by (simp add: example_deck_def)
  from C5_totalReviews_counts_answers [of _ _ _ _ _ _ _ _ _ ?d _ ?evs 5 e',
      THEN conjunct2, THEN conjunct2, THEN conjunct2, THEN conjunct1, THEN mp, OF e']
  have t: "totalReviews (phrases (exam_deck e') ! 0) = 1
      \<and> totalReviews (phrases (exam_deck e') ! 1) = 1"
    by (simp only: d l) (simp add: card_def answers_to_def)
  from e' t show "\<exists>e'. exam_run ?evs (exam_mount ?d 5) = Inr e'
        \<and> totalReviews (phrases (exam_deck e') ! 0) = 1
        \<and> totalReviews (phrases (exam_deck e') ! 1) = 1"
    by (intro exI [of _ e'] conjI) simp_all
qed

text \<open>
  C5 as stated fails from \<open>2 ^ 53\<close> on: a card imported with progress
  \<open>9007199254740992\<close> starts with that \<open>totalReviews\<close>, and an answer leaves it there.
\<close>

theorem C5_rounding_counterexample:
  "calculateResult [importer_phrase ''A'' (seeded_item 9007199254740992)] (Some ''A'')
     [''A''] 5 False =
     Inr (Some \<lparr> updatedPhrases =
                    [(importer_phrase ''A'' (seeded_item 9007199254740992))
                       \<lparr> consecutiveCorrect := 0, consecutiveWrong := 1,
                         lastReviewedAt := Some 5 \<rparr>],
                  nextQueue = [''A''], insertOffset = 1 \<rparr>)
   \<and> totalReviews (importer_phrase ''A'' (seeded_item 9007199254740992))
       = 9007199254740992
   \<and> totalReviews ((importer_phrase ''A'' (seeded_item 9007199254740992))
                      \<lparr> consecutiveCorrect := 0, consecutiveWrong := 1,
                        lastReviewedAt := Some 5 \<rparr>)
       \<noteq> totalReviews (importer_phrase ''A'' (seeded_item 9007199254740992)) + 1"
  by (simp add: calculateResult_def importer_phrase_def seeded_item_def seed_correct_def
      seed_wrong_def study_update_phrases_def requested_offset_def js_add1_def
      reinsert_def splice_insert_def shift_def Let_def)

section \<open>The exam list\<close>

lemma exam_step_questions:
  assumes "isInitialized e" and "exam_step ev e = Inr e'"
  shows "questions e' = questions e \<and> isInitialized e'"
proof (cases ev)
  case (InitEffect shuffled)
  with assms show ?thesis by (auto simp: exam_init_effect_def)
next
  case Reveal
  with assms show ?thesis by (auto simp: handleReveal_def)
next
  case (ExamVerdict now b)
  with assms have "exam_handleVerdict now b e = Inr e'" by simp
  from exam_handleVerdict_InrD [OF this] assms(1) show ?thesis by simp
qed

lemma exam_run_questions:
  "isInitialized e \<Longrightarrow> exam_run evs e = Inr e' \<Longrightarrow> questions e' = questions e"
proof (induction evs arbitrary: e)
  case Nil
  then show ?case by simp
next
  case (Cons ev evs)
  then obtain e1 where e1: "exam_step ev e = Inr e1" and r: "exam_run evs e1 = Inr e'"
    by (auto split: sum.splits)
  from exam_step_questions [OF Cons.prems(1) e1]
  have "questions e1 = questions e" and "isInitialized e1" by simp_all
  with Cons.IH [OF _ r] show ?case by simp
qed

lemma exam_first_init:
  "questions (exam_init_effect shuffled (exam_mount d n)) =
     slice0 shuffled (min n (int (length (phrases d))))
   \<and> isInitialized (exam_init_effect shuffled (exam_mount d n))"
  by (simp add: exam_init_effect_def exam_mount_def Let_def)

text \<open>
  C7. In exam mode an answer leaves the list of questions as it is, and so does every run
  of events (answers, reveals, re-runs of the initialising effect) of a session that has
  been initialised: the order fixed by the first run of the effect stays.
\<close>

theorem C7_exam_order_immutable:
  "(exam_handleVerdict now isCorrect e = Inr e1 \<longrightarrow> questions e1 = questions e)
   \<and> (isInitialized e \<and> exam_run evs e = Inr e' \<longrightarrow> questions e' = questions e)
   \<and> (exam_run evs (exam_init_effect shuffled (exam_mount d n)) = Inr e2 \<longrightarrow>
        questions e2 = questions (exam_init_effect shuffled (exam_mount d n)))"
proof (intro conjI impI)
  assume "exam_handleVerdict now isCorrect e = Inr e1"
  from exam_handleVerdict_InrD [OF this] show "questions e1 = questions e" by simp
next
  assume "isInitialized e \<and> exam_run evs e = Inr e'"
  then show "questions e' = questions e" using exam_run_questions by blast
next
  assume "exam_run evs (exam_init_effect shuffled (exam_mount d n)) = Inr e2"
  then show "questions e2 = questions (exam_init_effect shuffled (exam_mount d n))"
    using exam_run_questions exam_first_init by blast
qed

theorem C7_exam_order_immutable_witness:
  "\<exists>e'. exam_run [Reveal, ExamVerdict 1 True, InitEffect [card ''A'' 0 0 0, card ''B'' 0 0 0],
                   Reveal, ExamVerdict 2 False]
           (exam_init_effect [card ''B'' 0 0 0, card ''A'' 0 0 0]
              (exam_mount (example_deck [card ''A'' 0 0 0, card ''B'' 0 0 0]) 2)) = Inr e'
        \<and> questions e' = [card ''B'' 0 0 0, card ''A'' 0 0 0]
        \<and> phrases (exam_deck e') \<noteq> phrases (example_deck [card ''A'' 0 0 0, card ''B'' 0 0 0])"
proof -
  let ?e = "exam_init_effect [card ''B'' 0 0 0, card ''A'' 0 0 0]
              (exam_mount (example_deck [card ''A'' 0 0 0, card ''B'' 0 0 0]) 2)"
  let ?evs = "[Reveal, ExamVerdict 1 True, InitEffect [card ''A'' 0 0 0, card ''B'' 0 0 0],
                   Reveal, ExamVerdict 2 False]"
  have "\<exists>e'. exam_run ?evs ?e = Inr e'
      \<and> phrases (exam_deck e') \<noteq> phrases (example_deck [card ''A'' 0 0 0, card ''B'' 0 0 0])"
    by (simp add: exam_eval)
  then obtain e' where e': "exam_run ?evs ?e = Inr e'"
    and ne: "phrases (exam_deck e') \<noteq> phrases (example_deck [card ''A'' 0 0 0, card ''B'' 0 0 0])"
    by blast
  have i: "isInitialized ?e" and q: "questions ?e = [card ''B'' 0 0 0, card ''A'' 0 0 0]"
    by (simp_all add: exam_init_effect_def exam_mount_def example_deck_def slice0_def Let_def)
  from C7_exam_order_immutable [where e = ?e and evs = ?evs and e' = e', THEN conjunct2, THEN conjunct1, THEN mp]
    i e'
  have "questions e' = questions ?e" by blast
  with q e' ne show ?thesis by auto
qed

lemma slice0_nonneg: "0 \<le> n \<Longrightarrow> slice0 xs n = take (nat n) xs"
  by (simp add: slice0_def Let_def min_def)

text \<open>
  C8, as amended. For every deck, every shuffle of its cards and every requested count that
  is not negative, the exam selects exactly \<open>min requestedCount deckSize\<close> entries of the
  deck's card list, none of them more often than the list holds it, so each selected card
  appears at most once when the ids of the deck's cards are distinct; a count of at least
  the deck's size selects the whole deck.
\<close>

theorem C8_exam_selection:
  "mset shuffled = mset (phrases d) \<and> 0 \<le> n \<longrightarrow>
     int (length (questions (exam_init_effect shuffled (exam_mount d n))))
       = min n (int (length (phrases d)))
     \<and> mset (questions (exam_init_effect shuffled (exam_mount d n))) \<subseteq># mset (phrases d)
     \<and> (distinct (map pid (phrases d)) \<longrightarrow>
          distinct (map pid (questions (exam_init_effect shuffled (exam_mount d n)))))
     \<and> (int (length (phrases d)) \<le> n \<longrightarrow>
          mset (questions (exam_init_effect shuffled (exam_mount d n))) = mset (phrases d))"
proof
  assume a: "mset shuffled = mset (phrases d) \<and> 0 \<le> n"
  let ?m = "min n (int (length (phrases d)))"
  let ?sel = "questions (exam_init_effect shuffled (exam_mount d n))"
  have len: "length shuffled = length (phrases d)"
    using a by (metis size_mset)
  have m0: "0 \<le> ?m" using a by simp
  have sel: "?sel = take (nat ?m) shuffled"
    using exam_first_init [of shuffled d n] slice0_nonneg [OF m0] by simp
  have l: "int (length ?sel) = ?m"
    using a len by (simp add: sel)
  have "mset (take (nat ?m) shuffled) \<subseteq># mset (take (nat ?m) shuffled @ drop (nat ?m) shuffled)"
    by (simp only: mset_append mset_subset_eq_add_left)
  then have sub: "mset ?sel \<subseteq># mset (phrases d)"
    using a by (simp only: sel append_take_drop_id)
  have dist: "distinct (map pid (phrases d)) \<longrightarrow> distinct (map pid ?sel)"
  proof
    assume "distinct (map pid (phrases d))"
    moreover have "mset (map pid shuffled) = mset (map pid (phrases d))"
      using a by (metis mset_map)
    ultimately have "distinct (map pid shuffled)"
      by (metis mset_eq_imp_distinct_iff)
    then have "distinct (take (nat ?m) (map pid shuffled))"
      by (rule distinct_take)
    then show "distinct (map pid ?sel)"
      by (simp add: sel take_map)
  qed
  have full: "int (length (phrases d)) \<le> n \<longrightarrow> mset ?sel = mset (phrases d)"
    using a len by (simp add: sel min_def)
  from l sub dist full
  show "int (length ?sel) = ?m \<and> mset ?sel \<subseteq># mset (phrases d)
     \<and> (distinct (map pid (phrases d)) \<longrightarrow> distinct (map pid ?sel))
     \<and> (int (length (phrases d)) \<le> n \<longrightarrow> mset ?sel = mset (phrases d))"
    by blast
qed

theorem C8_exam_selection_witness:
  "mset [card ''B'' 0 0 0, card ''A'' 0 0 0]
     = mset (phrases (example_deck [card ''A'' 0 0 0, card ''B'' 0 0 0]))
   \<and> (0::int) \<le> 5
   \<and> length (questions (exam_init_effect [card ''B'' 0 0 0, card ''A'' 0 0 0]
        (exam_mount (example_deck [card ''A'' 0 0 0, card ''B'' 0 0 0]) 5))) = 2
   \<and> distinct (map pid (questions (exam_init_effect [card ''B'' 0 0 0, card ''A'' 0 0 0]
        (exam_mount (example_deck [card ''A'' 0 0 0, card ''B'' 0 0 0]) 5))))"
proof -
  have h: "mset [card ''B'' 0 0 0, card ''A'' 0 0 0]
     = mset (phrases (example_deck [card ''A'' 0 0 0, card ''B'' 0 0 0])) \<and> (0::int) \<le> 5"
    by (simp add: example_deck_def)
  have d: "distinct (map pid (phrases (example_deck [card ''A'' 0 0 0, card ''B'' 0 0 0])))"
    "length (phrases (example_deck [card ''A'' 0 0 0, card ''B'' 0 0 0])) = 2"
    by (simp_all add: example_deck_def card_def)
  note g = C8_exam_selection [of "[card ''B'' 0 0 0, card ''A'' 0 0 0]"
      "example_deck [card ''A'' 0 0 0, card ''B'' 0 0 0]" 5, THEN mp, OF h]
  from g d have "int (length (questions (exam_init_effect [card ''B'' 0 0 0, card ''A'' 0 0 0]
        (exam_mount (example_deck [card ''A'' 0 0 0, card ''B'' 0 0 0]) 5)))) = 2"
    by simp
  with g d h show ?thesis by simp
qed

text \<open>
  C8 as stated fails for a negative count: the count \<open>-1\<close> on a deck of three cards
  selects two cards, because \<open>slice\<close> takes a negative end from the end of the array. It
  also fails for a deck that holds a card twice: a batch save that names the phrase \<open>a\<close>
  on two lines stores it twice under its one id, and an exam of two questions selects that
  card twice.
\<close>

theorem C8_exam_selection_counterexample:
  "int (length (questions (exam_init_effect
          [card ''C'' 0 0 0, card ''A'' 0 0 0, card ''B'' 0 0 0]
          (exam_mount (example_deck [card ''A'' 0 0 0, card ''B'' 0 0 0, card ''C'' 0 0 0])
             (- 1)))))
   \<noteq> min (- 1) (int (length (phrases
          (example_deck [card ''A'' 0 0 0, card ''B'' 0 0 0, card ''C'' 0 0 0]))))
   \<and> map pid (questions (exam_init_effect
          (phrases (confirmBatchSave (\<lambda>s. s) (\<lambda>s. s) decimal_parseInt example_uuid
             (example_deck [(card ''1'' 0 0 0)\<lparr> english := ''a'' \<rparr>]) ''deck''
             [(card ''1'' 0 0 0)\<lparr> english := ''a'' \<rparr>] twice_text))
          (exam_mount
             (confirmBatchSave (\<lambda>s. s) (\<lambda>s. s) decimal_parseInt example_uuid
                (example_deck [(card ''1'' 0 0 0)\<lparr> english := ''a'' \<rparr>]) ''deck''
                [(card ''1'' 0 0 0)\<lparr> english := ''a'' \<rparr>] twice_text)
             2)))
     = [''1'', ''1'']"
  by code_simp


section \<open>Bulk text format: the order of the lines\<close>

text \<open>
  The comparators of both import paths order any two different parsed lines strictly, so
  every sort that returns the lines in comparator order returns the list that the
  insertion sort returns.
\<close>

lemma mset_insert_by: "mset (insert_by cmp x xs) = add_mset x (mset xs)"
  by (induction xs) auto

lemma mset_js_sort: "mset (js_sort cmp xs) = mset xs"
  by (induction xs) (auto simp: js_sort_def mset_insert_by)

lemma set_insert_by: "set (insert_by cmp x xs) = insert x (set xs)"
  by (induction xs) auto

lemma sorted_insert_by:
  assumes tot: "\<And>a b. cmp a b \<le> 0 \<or> cmp b a \<le> 0"
    and tr: "\<And>a b c. cmp a b \<le> 0 \<Longrightarrow> cmp b c \<le> 0 \<Longrightarrow> cmp a c \<le> 0"
    and srt: "sorted_wrt (\<lambda>a b. cmp a b \<le> 0) xs"
  shows "sorted_wrt (\<lambda>a b. cmp a b \<le> 0) (insert_by cmp x xs)"
  using srt
proof (induction xs)
  case Nil
  then show ?case by simp
next
  case (Cons y ys)
  show ?case
  proof (cases "cmp x y \<le> 0")
    case True
    then have "\<forall>z \<in> set ys. cmp x z \<le> 0"
      using Cons.prems tr by auto
    with True Cons.prems show ?thesis by simp
  next
    case False
    then have "cmp y x \<le> 0" using tot by blast
    with False Cons show ?thesis by (auto simp: set_insert_by)
  qed
qed

lemma sorted_js_sort:
  assumes tot: "\<And>a b. cmp a b \<le> 0 \<or> cmp b a \<le> 0"
    and tr: "\<And>a b c. cmp a b \<le> 0 \<Longrightarrow> cmp b c \<le> 0 \<Longrightarrow> cmp a c \<le> 0"
  shows "sorted_wrt (\<lambda>a b. cmp a b \<le> 0) (js_sort cmp xs)"
proof (induction xs)
  case Nil
  then show ?case by (simp add: js_sort_def)
next
  case (Cons x xs)
  have "js_sort cmp (x # xs) = insert_by cmp x (js_sort cmp xs)"
    by (simp add: js_sort_def)
  with Cons sorted_insert_by [of cmp "js_sort cmp xs" x, OF tot tr] show ?case by simp
qed

lemma sorted_wrt_distinct_key:
  "sorted_wrt P ys \<Longrightarrow> distinct (map f ys) \<Longrightarrow> sorted_wrt (\<lambda>a b. P a b \<and> f a \<noteq> f b) ys"
  by (induction ys) auto

lemma importer_compare_le:
  "(importer_compare a b \<le> 0) =
     (case (position a, position b) of
        (Some pa, Some pb) \<Rightarrow> pa < pb \<or> (pa = pb \<and> originalIndex a \<le> originalIndex b)
      | (Some pa, None) \<Rightarrow> True
      | (None, Some pb) \<Rightarrow> False
      | (None, None) \<Rightarrow> originalIndex a \<le> originalIndex b)"
  by (auto simp: importer_compare_def Let_def split: option.splits)

lemma importer_compare_total: "importer_compare a b \<le> 0 \<or> importer_compare b a \<le> 0"
  unfolding importer_compare_le by (auto split: option.splits)

lemma importer_compare_trans:
  "importer_compare a b \<le> 0 \<Longrightarrow> importer_compare b c \<le> 0 \<Longrightarrow> importer_compare a c \<le> 0"
  unfolding importer_compare_le by (auto split: option.splits)

lemma importer_compare_line_order:
  "importer_compare a b \<le> 0 \<and> originalIndex a \<noteq> originalIndex b \<Longrightarrow> line_order a b"
  unfolding importer_compare_le line_order_def by (auto split: option.splits)

lemma editor_compare_le:
  "(editor_compare isOld a b \<le> 0) =
     (case (position a, position b) of
        (Some pa, Some pb) \<Rightarrow>
          pa < pb \<or>
          (pa = pb \<and> ((\<not> isOld a \<and> isOld b) \<or>
                       (isOld a = isOld b \<and> originalIndex a \<le> originalIndex b)))
      | (Some pa, None) \<Rightarrow> True
      | (None, Some pb) \<Rightarrow> False
      | (None, None) \<Rightarrow> originalIndex a \<le> originalIndex b)"
  by (auto simp: editor_compare_def Let_def split: option.splits)

lemma editor_compare_total: "editor_compare isOld a b \<le> 0 \<or> editor_compare isOld b a \<le> 0"
  unfolding editor_compare_le by (auto split: option.splits)

lemma editor_compare_trans:
  "editor_compare isOld a b \<le> 0 \<Longrightarrow> editor_compare isOld b c \<le> 0
     \<Longrightarrow> editor_compare isOld a c \<le> 0"
  unfolding editor_compare_le by (auto split: option.splits)

lemma editor_compare_line_order:
  "editor_compare isOld a b \<le> 0 \<and> originalIndex a \<noteq> originalIndex b
     \<Longrightarrow> editor_line_order isOld a b"
  unfolding editor_compare_le editor_line_order_def by (auto split: option.splits)

lemma parse_line_index:
  "parse_line trim parseInt index line = Some item \<Longrightarrow> originalIndex item = index"
  by (auto simp: parse_line_def Let_def split: if_splits)

lemma parsed_indices_from:
  "x \<in> set (List.map_filter (\<lambda>(index, line). parse_line trim parseInt index line)
                (List.enumerate n ls)) \<Longrightarrow> n \<le> originalIndex x"
proof (induction ls arbitrary: n)
  case Nil
  then show ?case by (simp add: List.map_filter_simps)
next
  case (Cons l ls)
  let ?rest = "List.map_filter (\<lambda>(index, line). parse_line trim parseInt index line)
                (List.enumerate (Suc n) ls)"
  from Cons.prems
  have "parse_line trim parseInt n l = Some x \<or> x \<in> set ?rest"
    by (auto simp: List.map_filter_simps split: option.splits)
  then show ?case
  proof
    assume "parse_line trim parseInt n l = Some x"
    then show ?thesis by (simp add: parse_line_index)
  next
    assume "x \<in> set ?rest"
    then have "Suc n \<le> originalIndex x" by (rule Cons.IH)
    then show ?thesis by simp
  qed
qed

lemma parsed_indices_distinct:
  "distinct (map originalIndex
     (List.map_filter (\<lambda>(index, line). parse_line trim parseInt index line) (List.enumerate n ls)))"
proof (induction ls arbitrary: n)
  case Nil
  then show ?case by (simp add: List.map_filter_simps)
next
  case (Cons l ls)
  show ?case
  proof (cases "parse_line trim parseInt n l")
    case None
    then show ?thesis using Cons.IH [of "Suc n"] by (simp add: List.map_filter_simps)
  next
    case (Some item)
    have "originalIndex item = n" using Some by (rule parse_line_index)
    moreover have "\<forall>x \<in> set (List.map_filter (\<lambda>(index, line). parse_line trim parseInt index line)
                (List.enumerate (Suc n) ls)). Suc n \<le> originalIndex x"
      using parsed_indices_from by blast
    ultimately show ?thesis
      using Some Cons.IH [of "Suc n"] by (auto simp: List.map_filter_simps)
  qed
qed

lemma parse_items_distinct: "distinct (map originalIndex (parse_items trim parseInt txt))"
  by (simp add: parse_items_def Let_def parsed_indices_distinct)

lemma js_sort_distinct_index:
  "distinct (map originalIndex xs) \<Longrightarrow> distinct (map originalIndex (js_sort cmp xs))"
proof -
  assume "distinct (map originalIndex xs)"
  moreover have "mset (map originalIndex (js_sort cmp xs)) = mset (map originalIndex xs)"
    by (simp add: mset_js_sort)
  ultimately show ?thesis by (metis mset_eq_imp_distinct_iff)
qed

lemma importer_sorted_line_order:
  "sorted_wrt line_order (importer_sorted_items trim parseInt txt)"
proof -
  let ?ys = "importer_sorted_items trim parseInt txt"
  have s: "sorted_wrt (\<lambda>a b. importer_compare a b \<le> 0) ?ys"
    unfolding importer_sorted_items_def
    by (rule sorted_js_sort [OF importer_compare_total importer_compare_trans])
  have d: "distinct (map originalIndex ?ys)"
    unfolding importer_sorted_items_def
    by (rule js_sort_distinct_index [OF parse_items_distinct])
  from sorted_wrt_distinct_key [OF s d]
  show ?thesis
    by (rule sorted_wrt_mono_rel [rotated]) (simp add: importer_compare_line_order)
qed

lemma editor_sorted_line_order:
  "sorted_wrt
     (editor_line_order
        (\<lambda>item. existingPhrasesMap trim toLowerCase ps (trim (toLowerCase (eng item))) \<noteq> None))
     (editor_sorted_items trim toLowerCase parseInt ps txt)"
proof -
  let ?isOld = "\<lambda>item. existingPhrasesMap trim toLowerCase ps (trim (toLowerCase (eng item))) \<noteq> None"
  let ?ys = "editor_sorted_items trim toLowerCase parseInt ps txt"
  have s: "sorted_wrt (\<lambda>a b. editor_compare ?isOld a b \<le> 0) ?ys"
    unfolding editor_sorted_items_def Let_def
    by (rule sorted_js_sort [OF editor_compare_total editor_compare_trans])
  have d: "distinct (map originalIndex ?ys)"
    unfolding editor_sorted_items_def Let_def
    by (rule js_sort_distinct_index [OF parse_items_distinct])
  from sorted_wrt_distinct_key [OF s d]
  show ?thesis
    by (rule sorted_wrt_mono_rel [rotated]) (simp add: editor_compare_line_order)
qed

lemma sorted_wrt_unique:
  assumes asym: "\<And>a b. R a b \<Longrightarrow> \<not> R b a"
  shows "sorted_wrt R xs \<Longrightarrow> sorted_wrt R ys \<Longrightarrow> mset xs = mset ys \<Longrightarrow> xs = ys"
proof (induction xs arbitrary: ys)
  case Nil
  then show ?case by simp
next
  case (Cons x xs)
  then obtain y ys' where ys: "ys = y # ys'" by (cases ys) auto
  have xy: "x = y"
  proof (rule ccontr)
    assume ne: "x \<noteq> y"
    have "x \<in> set ys" using Cons.prems(3) by (metis list.set_intros(1) mset_eq_setD)
    with ne ys have "x \<in> set ys'" by simp
    then have 1: "R y x" using Cons.prems(2) ys by simp
    have "y \<in> set (x # xs)" using Cons.prems(3) ys by (metis list.set_intros(1) mset_eq_setD)
    with ne have "y \<in> set xs" by simp
    then have 2: "R x y" using Cons.prems(1) by simp
    from 1 2 asym show False by blast
  qed
  then have "mset xs = mset ys'" using Cons.prems(3) ys by simp
  with Cons xy ys show ?case by simp
qed

lemma line_order_asym: "line_order a b \<Longrightarrow> \<not> line_order b a"
  by (auto simp: line_order_def split: option.splits)

lemma importer_order_unique:
  assumes "mset ys = mset (parse_items trim parseInt txt)" and "sorted_wrt line_order ys"
  shows "ys = importer_sorted_items trim parseInt txt"
proof -
  have "mset ys = mset (importer_sorted_items trim parseInt txt)"
    using assms(1) by (simp add: importer_sorted_items_def mset_js_sort)
  with sorted_wrt_unique [of line_order, OF line_order_asym assms(2) importer_sorted_line_order]
  show ?thesis by blast
qed

lemma editor_line_order_asym:
  "editor_line_order isOld a b \<Longrightarrow> \<not> editor_line_order isOld b a"
  by (cases "position a"; cases "position b") (auto simp: editor_line_order_def)

lemma editor_order_unique:
  assumes "mset ys = mset (parse_items trim parseInt batchText)"
    and "sorted_wrt
          (editor_line_order
             (\<lambda>item. existingPhrasesMap trim toLowerCase ps (trim (toLowerCase (eng item))) \<noteq> None))
          ys"
  shows "ys = editor_sorted_items trim toLowerCase parseInt ps batchText"
proof -
  have "mset ys = mset (editor_sorted_items trim toLowerCase parseInt ps batchText)"
    using assms(1) by (simp add: editor_sorted_items_def Let_def mset_js_sort)
  with sorted_wrt_unique [of "editor_line_order
             (\<lambda>item. existingPhrasesMap trim toLowerCase ps (trim (toLowerCase (eng item))) \<noteq> None)",
      OF editor_line_order_asym assms(2) editor_sorted_line_order]
  show ?thesis by blast
qed

lemma map_enumerate_item: "map (\<lambda>(i, item). g item) (List.enumerate n xs) = map g xs"
  by (induction xs arbitrary: n) auto

lemma handleManualImport_InrD:
  assumes "handleManualImport trim parseInt uuid deckName txt = Inr (nm, ps)"
  shows "nm = deckName \<and> ps \<noteq> [] \<and>
     ps = map (\<lambda>(i, item). importer_phrase (uuid i) item)
            (List.enumerate 0 (importer_sorted_items trim parseInt txt))"
  using assms by (auto simp: handleManualImport_def Let_def split: if_splits)

lemma importer_phrase_fields:
  "english (importer_phrase newId item) = eng item"
  "chinese (importer_phrase newId item) = chi item"
  "totalReviews (importer_phrase newId item) = nat \<bar>progress item\<bar>"
  "consecutiveCorrect (importer_phrase newId item) + consecutiveWrong (importer_phrase newId item)
     = totalReviews (importer_phrase newId item)"
  "lastReviewedAt (importer_phrase newId item) = None"
  by (simp_all add: importer_phrase_def seed_correct_def seed_wrong_def Let_def)

lemma handleManualImport_maps:
  assumes "handleManualImport trim parseInt uuid deckName txt = Inr (nm, ps)"
  shows "map english ps = map eng (importer_sorted_items trim parseInt txt)"
    and "map chinese ps = map chi (importer_sorted_items trim parseInt txt)"
    and "map totalReviews ps =
           map (\<lambda>item. nat \<bar>progress item\<bar>) (importer_sorted_items trim parseInt txt)"
proof -
  let ?items = "importer_sorted_items trim parseInt txt"
  have ps: "ps = map (\<lambda>(i, item). importer_phrase (uuid i) item) (List.enumerate 0 ?items)"
    using handleManualImport_InrD [OF assms] by simp
  have "map english ps = map (\<lambda>(i, item). eng item) (List.enumerate 0 ?items)"
    by (simp add: ps importer_phrase_fields split_def)
  then show "map english ps = map eng ?items" by (simp add: map_enumerate_item)
  have "map chinese ps = map (\<lambda>(i, item). chi item) (List.enumerate 0 ?items)"
    by (simp add: ps importer_phrase_fields split_def)
  then show "map chinese ps = map chi ?items" by (simp add: map_enumerate_item)
  have "map totalReviews ps = map (\<lambda>(i, item). nat \<bar>progress item\<bar>) (List.enumerate 0 ?items)"
    by (simp add: ps importer_phrase_fields split_def)
  then show "map totalReviews ps = map (\<lambda>item. nat \<bar>progress item\<bar>) ?items"
    by (simp add: map_enumerate_item)
qed

lemma batch_build_queue:
  "snd (batch_build existing key uuid n items) = map pid (fst (batch_build existing key uuid n items))"
  by (induction items arbitrary: n) (auto simp: Let_def split: option.splits)

lemma batch_build_english:
  "map english (fst (batch_build existing key uuid n items)) = map eng items"
  by (induction items arbitrary: n) (auto simp: Let_def split: option.splits)

lemma batch_build_length:
  "length (fst (batch_build existing key uuid n items)) = length items"
  by (induction items arbitrary: n) (auto simp: Let_def split: option.splits)

lemma batch_build_new:
  "i < length items \<Longrightarrow> existing (key (eng (items ! i))) = None \<Longrightarrow>
     totalReviews (fst (batch_build existing key uuid n items) ! i) = nat \<bar>progress (items ! i)\<bar>
   \<and> consecutiveCorrect (fst (batch_build existing key uuid n items) ! i)
     + consecutiveWrong (fst (batch_build existing key uuid n items) ! i)
     = totalReviews (fst (batch_build existing key uuid n items) ! i)
   \<and> lastReviewedAt (fst (batch_build existing key uuid n items) ! i) = None"
proof (induction items arbitrary: n i)
  case Nil
  then show ?case by simp
next
  case (Cons item items)
  show ?case
  proof (cases i)
    case 0
    with Cons.prems show ?thesis
      by (simp add: Let_def seed_correct_def seed_wrong_def)
  next
    case (Suc j)
    with Cons.prems have j: "j < length items" "existing (key (eng (items ! j))) = None"
      by simp_all
    show ?thesis
    proof (cases "existing (key (eng item))")
      case None
      with Suc Cons.IH [OF j, of "n + 1"] show ?thesis by (simp add: Let_def)
    next
      case (Some ex)
      with Suc Cons.IH [OF j, of n] show ?thesis by (simp add: Let_def)
    qed
  qed
qed

text \<open>
  C9, as amended. In the Importer the parsed lines are ordered by \<open>line_order\<close>: a line
  with an explicit position before a line without one, explicit positions ascending, ties
  (equal explicit positions, or no position on either side) in the order of the lines; the
  cards are created in that order, and the new deck's queue is the list of their ids. In the
  DeckEditor's batch save the order is \<open>editor_line_order\<close>: the same, except that among
  equal explicit positions a phrase new to the deck comes before one the deck already has,
  and the order of the lines decides only between two new or two existing phrases; the
  saved deck's cards and queue follow that order. In both, sorting only rearranges the
  parsed lines.
\<close>

theorem C9_import_order:
  "sorted_wrt line_order (importer_sorted_items trim parseInt manualText)
   \<and> mset (importer_sorted_items trim parseInt manualText) = mset (parse_items trim parseInt manualText)
   \<and> (handleManualImport trim parseInt uuid deckName manualText = Inr (nm, ps) \<longrightarrow>
        map english ps = map eng (importer_sorted_items trim parseInt manualText)
        \<and> map chinese ps = map chi (importer_sorted_items trim parseInt manualText)
        \<and> queue (handleCreateDeck newDeckId nm ps) = map pid ps)
   \<and> sorted_wrt
        (editor_line_order
           (\<lambda>item. existingPhrasesMap trim toLowerCase eps (trim (toLowerCase (eng item))) \<noteq> None))
        (editor_sorted_items trim toLowerCase parseInt eps batchText)
   \<and> mset (editor_sorted_items trim toLowerCase parseInt eps batchText)
       = mset (parse_items trim parseInt batchText)
   \<and> map english (phrases (confirmBatchSave trim toLowerCase parseInt uuid d deckName eps batchText))
       = map eng (editor_sorted_items trim toLowerCase parseInt eps batchText)
   \<and> queue (confirmBatchSave trim toLowerCase parseInt uuid d deckName eps batchText)
       = map pid (phrases (confirmBatchSave trim toLowerCase parseInt uuid d deckName eps batchText))"
proof (intro conjI impI)
  show "sorted_wrt line_order (importer_sorted_items trim parseInt manualText)"
    by (rule importer_sorted_line_order)
  show "mset (importer_sorted_items trim parseInt manualText) = mset (parse_items trim parseInt manualText)"
    by (simp add: importer_sorted_items_def mset_js_sort)
  show "sorted_wrt
        (editor_line_order
           (\<lambda>item. existingPhrasesMap trim toLowerCase eps (trim (toLowerCase (eng item))) \<noteq> None))
        (editor_sorted_items trim toLowerCase parseInt eps batchText)"
    by (rule editor_sorted_line_order)
  show "mset (editor_sorted_items trim toLowerCase parseInt eps batchText)
       = mset (parse_items trim parseInt batchText)"
    by (simp add: editor_sorted_items_def Let_def mset_js_sort)
  show "map english (phrases (confirmBatchSave trim toLowerCase parseInt uuid d deckName eps batchText))
       = map eng (editor_sorted_items trim toLowerCase parseInt eps batchText)"
    by (simp add: confirmBatchSave_def Let_def batch_build_english)
  show "queue (confirmBatchSave trim toLowerCase parseInt uuid d deckName eps batchText)
       = map pid (phrases (confirmBatchSave trim toLowerCase parseInt uuid d deckName eps batchText))"
    by (simp add: confirmBatchSave_def Let_def batch_build_queue)
next
  assume a: "handleManualImport trim parseInt uuid deckName manualText = Inr (nm, ps)"
  show "map english ps = map eng (importer_sorted_items trim parseInt manualText)"
    by (rule handleManualImport_maps(1) [OF a])
  show "map chinese ps = map chi (importer_sorted_items trim parseInt manualText)"
    by (rule handleManualImport_maps(2) [OF a])
  show "queue (handleCreateDeck newDeckId nm ps) = map pid ps"
    by (simp add: handleCreateDeck_def)
qed

lemma example_import_items:
  "map eng (importer_sorted_items (\<lambda>s. s) decimal_parseInt example_text) = [''a'', ''b'', ''c'']"
  by code_simp

lemma example_import_returns:
  "\<exists>ps. handleManualImport (\<lambda>s. s) decimal_parseInt example_uuid ''deck'' example_text
          = Inr (''deck'', ps)"
proof -
  have "importer_sorted_items (\<lambda>s. s) decimal_parseInt example_text \<noteq> []"
    using example_import_items by auto
  then have "List.enumerate 0 (importer_sorted_items (\<lambda>s. s) decimal_parseInt example_text) \<noteq> []"
    by (metis length_enumerate length_0_conv)
  then show ?thesis
    by (simp add: handleManualImport_def Let_def)
qed

theorem C9_import_order_witness:
  "\<exists>ps. handleManualImport (\<lambda>s. s) decimal_parseInt example_uuid ''deck'' example_text
          = Inr (''deck'', ps)
      \<and> map english ps = [''a'', ''b'', ''c'']
      \<and> queue (handleCreateDeck ''id'' ''deck'' ps) = map pid ps"
proof -
  from example_import_returns obtain ps where
    ps: "handleManualImport (\<lambda>s. s) decimal_parseInt example_uuid ''deck'' example_text
          = Inr (''deck'', ps)" ..
  from C9_import_order [where trim = "\<lambda>s. s" and parseInt = decimal_parseInt
      and uuid = example_uuid and deckName = "''deck''" and manualText = example_text
      and nm = "''deck''" and ps = ps and newDeckId = "''id''",
      THEN conjunct2, THEN conjunct2, THEN conjunct1, THEN mp, OF ps]
  have g: "map english ps
             = map eng (importer_sorted_items (\<lambda>s. s) decimal_parseInt example_text)
      \<and> map chinese ps
             = map chi (importer_sorted_items (\<lambda>s. s) decimal_parseInt example_text)
      \<and> queue (handleCreateDeck ''id'' ''deck'' ps) = map pid ps" .
  from g have e: "map english ps = [''a'', ''b'', ''c'']"
    by (simp only: example_import_items)
  from g have q: "queue (handleCreateDeck ''id'' ''deck'' ps) = map pid ps"
    by (elim conjE)
  from ps e q show ?thesis
    by (intro exI [of _ ps] conjI)
qed

text \<open>
  C9 as stated fails for the DeckEditor: two lines with the same explicit position, the
  first for a phrase the deck already has and the second for a new phrase, are saved in the
  opposite order of the lines.
\<close>

theorem C9_editor_tie_counterexample:
  "\<not> sorted_wrt line_order
       (editor_sorted_items (\<lambda>s. s) (\<lambda>s. s) decimal_parseInt
          [(card ''1'' 0 0 0)\<lparr> english := ''a'' \<rparr>] tie_text)"
  by code_simp

section \<open>Bulk text format: seeded review counts\<close>

text \<open>
  C10. A card that the Importer creates from a line with progress \<open>p\<close> has
  \<open>totalReviews = |p|\<close>, the sum of its two seeded counters, and no review timestamp; so
  has a card that the DeckEditor's batch save creates for a phrase new to the deck. With
  \<open>p = 0\<close> the count is 0.
\<close>

theorem C10_import_totalReviews:
  "(handleManualImport trim parseInt uuid deckName manualText = Inr (nm, ps) \<longrightarrow>
      map totalReviews ps =
        map (\<lambda>item. nat \<bar>progress item\<bar>) (importer_sorted_items trim parseInt manualText)
      \<and> (\<forall>p \<in> set ps. totalReviews p = consecutiveCorrect p + consecutiveWrong p
                       \<and> lastReviewedAt p = None))
   \<and> totalReviews (importer_phrase newId item) = nat \<bar>progress item\<bar>
   \<and> (progress item = 0 \<longrightarrow> totalReviews (importer_phrase newId item) = 0)
   \<and> (i < length items \<and> existing (key (eng (items ! i))) = None \<longrightarrow>
        totalReviews (fst (batch_build existing key uuid n items) ! i)
          = nat \<bar>progress (items ! i)\<bar>
        \<and> totalReviews (fst (batch_build existing key uuid n items) ! i)
          = consecutiveCorrect (fst (batch_build existing key uuid n items) ! i)
            + consecutiveWrong (fst (batch_build existing key uuid n items) ! i)
        \<and> lastReviewedAt (fst (batch_build existing key uuid n items) ! i) = None)"
proof (intro conjI impI)
  assume a: "handleManualImport trim parseInt uuid deckName manualText = Inr (nm, ps)"
  show "map totalReviews ps =
        map (\<lambda>item. nat \<bar>progress item\<bar>) (importer_sorted_items trim parseInt manualText)"
    by (rule handleManualImport_maps(3) [OF a])
  have ps: "ps = map (\<lambda>(i, item). importer_phrase (uuid i) item)
            (List.enumerate 0 (importer_sorted_items trim parseInt manualText))"
    using handleManualImport_InrD [OF a] by simp
  show "\<forall>p \<in> set ps. totalReviews p = consecutiveCorrect p + consecutiveWrong p
                       \<and> lastReviewedAt p = None"
    by (auto simp: ps importer_phrase_fields)
next
  show "totalReviews (importer_phrase newId item) = nat \<bar>progress item\<bar>"
    by (rule importer_phrase_fields(3))
next
  assume "progress item = 0"
  then show "totalReviews (importer_phrase newId item) = 0"
    by (simp add: importer_phrase_fields(3))
next
  assume a: "i < length items \<and> existing (key (eng (items ! i))) = None"
  then have 1: "i < length items" and 2: "existing (key (eng (items ! i))) = None" by simp_all
  have b: "totalReviews (fst (batch_build existing key uuid n items) ! i)
          = nat \<bar>progress (items ! i)\<bar>
      \<and> consecutiveCorrect (fst (batch_build existing key uuid n items) ! i)
          + consecutiveWrong (fst (batch_build existing key uuid n items) ! i)
          = totalReviews (fst (batch_build existing key uuid n items) ! i)
      \<and> lastReviewedAt (fst (batch_build existing key uuid n items) ! i) = None"
    using 1 2 by (rule batch_build_new)
  show "totalReviews (fst (batch_build existing key uuid n items) ! i)
          = nat \<bar>progress (items ! i)\<bar>" using b by simp
  show "totalReviews (fst (batch_build existing key uuid n items) ! i)
          = consecutiveCorrect (fst (batch_build existing key uuid n items) ! i)
            + consecutiveWrong (fst (batch_build existing key uuid n items) ! i)" using b by simp
  show "lastReviewedAt (fst (batch_build existing key uuid n items) ! i) = None" using b by simp
qed

lemma example_import_progress:
  "map (\<lambda>item. nat \<bar>progress item\<bar>)
     (importer_sorted_items (\<lambda>s. s) decimal_parseInt example_text) = [3, 2, 0]"
  by code_simp

theorem C10_import_totalReviews_witness:
  "(\<exists>ps. handleManualImport (\<lambda>s. s) decimal_parseInt example_uuid ''deck'' example_text
          = Inr (''deck'', ps)
      \<and> map totalReviews ps = [3, 2, 0])
   \<and> totalReviews (fst (batch_build (\<lambda>k. None) (\<lambda>s. s) example_uuid 0
        [\<lparr> eng = ''a'', chi = ''x'', item_note = [], progress = - 4, position = None,
            originalIndex = 0 \<rparr>]) ! 0) = 4"
proof
  from example_import_returns obtain ps where
    ps: "handleManualImport (\<lambda>s. s) decimal_parseInt example_uuid ''deck'' example_text
          = Inr (''deck'', ps)" ..
  from C10_import_totalReviews [where trim = "\<lambda>s. s" and parseInt = decimal_parseInt
      and uuid = example_uuid and deckName = "''deck''" and manualText = example_text
      and nm = "''deck''" and ps = ps, THEN conjunct1, THEN mp, OF ps, THEN conjunct1]
  have t: "map totalReviews ps = [3, 2, 0]"
    by (simp only: example_import_progress)
  from ps t show "\<exists>ps. handleManualImport (\<lambda>s. s) decimal_parseInt example_uuid ''deck'' example_text
          = Inr (''deck'', ps) \<and> map totalReviews ps = [3, 2, 0]"
    by (intro exI [of _ ps] conjI)
next
  let ?items = "[\<lparr> eng = ''a'', chi = ''x'', item_note = [], progress = - 4, position = None,
            originalIndex = 0 \<rparr>]"
  have h: "0 < length ?items \<and> (\<lambda>k::string. None::phrase option) ((\<lambda>s. s) (eng (?items ! 0))) = None"
    by simp
  from C10_import_totalReviews [where i = 0 and items = ?items
      and existing = "\<lambda>k. None" and key = "\<lambda>s. s" and uuid = example_uuid and n = 0,
      THEN conjunct2, THEN conjunct2, THEN conjunct2, THEN mp, OF h, THEN conjunct1]
  show "totalReviews (fst (batch_build (\<lambda>k. None) (\<lambda>s. s) example_uuid 0 ?items) ! 0) = 4"
    by simp
qed

end
